theory Spec2Isabelle
  imports Main "HOL-Library.Sublist" "HOL-Library.Multiset" "HOL-Library.List_Lexorder"
begin

section \<open>Commands and message types\<close>

text \<open>
  The command unit of the protocol: a type tag and an opaque byte payload. The
  enumeration lists the tags that \<^verbatim>\<open>cli.py\<close> names, and one constructor for every other
  tag of the closed set (the substream-tagged broadcast types of the collaborators).
\<close>

datatype MessageType =
    LIST_ROOMS
  | DELETE_ROOM
  | CLEAR_ROOM
  | LIST_ROOM_CLIENTS
  | LIST_CLIENTS
  | LIST_ALL_CLIENTS
  | CONNECTION_LOST
  | OTHER_TYPE nat

type_synonym bytes = string

record Command =
  type :: MessageType
  data :: bytes

text \<open>
  Modelled from the spec: the constructor \<^verbatim>\<open>common.Command\<close> is not part of the two source
  files. A command is the pair of its type and its payload; built from the type alone,
  as in \<^verbatim>\<open>common.Command(common.MessageType.LIST_ROOMS)\<close>, it carries the empty payload.
\<close>

definition Command1 :: "MessageType \<Rightarrow> Command" where
  "Command1 t = \<lparr>type = t, data = []\<rparr>"

definition Command2 :: "MessageType \<Rightarrow> bytes \<Rightarrow> Command" where
  "Command2 t d = \<lparr>type = t, data = d\<rparr>"

section \<open>Exceptions, events and the exception-and-trace monad\<close>

text \<open>
  An exception is its class and its \<^verbatim>\<open>args\<close>. \<^verbatim>\<open>ServerError\<close> is declared in
  \<^verbatim>\<open>cli.py\<close> as a subclass of \<^verbatim>\<open>RuntimeError\<close>; \<^verbatim>\<open>failureException\<close> is the test
  case's failure class. The classes that the source does not name are given by their
  name and their place in the hierarchy: derived from \<^verbatim>\<open>ServerError\<close>, derived from
  \<^verbatim>\<open>RuntimeError\<close> otherwise (\<^verbatim>\<open>NotImplementedError\<close>, \<^verbatim>\<open>RecursionError\<close>, an error
  class of the grabber), derived from \<^verbatim>\<open>Exception\<close> otherwise, and derived from
  \<^verbatim>\<open>BaseException\<close> only (\<^verbatim>\<open>KeyboardInterrupt\<close>, \<^verbatim>\<open>SystemExit\<close>).
\<close>

datatype exn_class =
    RuntimeError
  | ServerError
  | IndexError
  | AttributeError
  | UnicodeEncodeError
  | failureException
  | ServerError_subclass string
  | RuntimeError_subclass string
  | OtherException string
  | NonException string

datatype exn = Exn exn_class "string list"

fun exn_cls :: "exn \<Rightarrow> exn_class" where
  "exn_cls (Exn c a) = c"

fun exn_args :: "exn \<Rightarrow> string list" where
  "exn_args (Exn c a) = a"

text \<open>\<^verbatim>\<open>except ServerError\<close>, \<^verbatim>\<open>except RuntimeError\<close> and \<^verbatim>\<open>except Exception\<close> catch the
  class and every class derived from it.\<close>

fun derives_ServerError :: "exn_class \<Rightarrow> bool" where
  "derives_ServerError ServerError = True"
| "derives_ServerError (ServerError_subclass n) = True"
| "derives_ServerError c = False"

fun derives_RuntimeError :: "exn_class \<Rightarrow> bool" where
  "derives_RuntimeError RuntimeError = True"
| "derives_RuntimeError (RuntimeError_subclass n) = True"
| "derives_RuntimeError c = derives_ServerError c"

fun derives_Exception :: "exn_class \<Rightarrow> bool" where
  "derives_Exception (NonException n) = False"
| "derives_Exception c = True"

definition is_ServerError :: "exn \<Rightarrow> bool" where
  "is_ServerError e = derives_ServerError (exn_cls e)"

definition is_RuntimeError :: "exn \<Rightarrow> bool" where
  "is_RuntimeError e = derives_RuntimeError (exn_cls e)"

definition is_Exception :: "exn \<Rightarrow> bool" where
  "is_Exception e = derives_Exception (exn_cls e)"

text \<open>
  A Python \<^verbatim>\<open>str\<close> that comes from the command line (or from the terminal) is
  represented by the bytes it was read from: Python decodes them as UTF-8 and turns
  every byte that is not part of a well-formed sequence into a lone surrogate. \<^verbatim>\<open>name.encode()\<close> gives the bytes back
  when they are well-formed UTF-8; on a lone surrogate it raises
  \<^verbatim>\<open>UnicodeEncodeError\<close>. The scanner reads the bytes with the number of continuation
  bytes still due and the range allowed for the next one.
\<close>

definition lead_byte :: "nat \<Rightarrow> (nat \<times> nat \<times> nat) option" where
  "lead_byte b =
     (if b < 0x80 then Some (0, 0x80, 0xBF)
      else if 0xC2 \<le> b \<and> b \<le> 0xDF then Some (1, 0x80, 0xBF)
      else if b = 0xE0 then Some (2, 0xA0, 0xBF)
      else if 0xE1 \<le> b \<and> b \<le> 0xEC then Some (2, 0x80, 0xBF)
      else if b = 0xED then Some (2, 0x80, 0x9F)
      else if 0xEE \<le> b \<and> b \<le> 0xEF then Some (2, 0x80, 0xBF)
      else if b = 0xF0 then Some (3, 0x90, 0xBF)
      else if 0xF1 \<le> b \<and> b \<le> 0xF3 then Some (3, 0x80, 0xBF)
      else if b = 0xF4 then Some (3, 0x80, 0x8F)
      else None)"

fun utf8_scan :: "nat \<Rightarrow> nat \<Rightarrow> nat \<Rightarrow> nat list \<Rightarrow> bool" where
  "utf8_scan due lo hi [] = (due = 0)"
| "utf8_scan due lo hi (b # bs) =
     (if due = 0 then
        (case lead_byte b of
           None \<Rightarrow> False
         | Some (d, l, h) \<Rightarrow> utf8_scan d l h bs)
      else lo \<le> b \<and> b \<le> hi \<and> utf8_scan (due - 1) 0x80 0xBF bs)"

definition encodable :: "string \<Rightarrow> bool" where
  "encodable name = utf8_scan 0 0x80 0xBF (map of_char name)"

definition encode :: "string \<Rightarrow> exn + bytes" where
  "encode name =
     (if encodable name then Inr name
      else Inl (Exn UnicodeEncodeError [''utf-8'', ''surrogates not allowed'']))"

text \<open>What the command line client writes to its terminal.\<close>

datatype out_msg =
    Out_expected_names
  | Out_prompt
  | Out_not_recognised string
  | Out_help "string list"
  | Out_ambiguous string "string list"
  | Out_echo string "string list"
  | Out_already_connected
  | Out_exception exn
  | Out_formatted Command
  | Out_fake_prompt

text \<open>
  The class \<^verbatim>\<open>client.Client\<close>, the module \<^verbatim>\<open>common\<close> and the threading library are
  outside the two source files. Every call into them is an event of the trace
  (\<^verbatim>\<open>time.sleep\<close> with its duration in milliseconds); whether
  the call raises, and what \<^verbatim>\<open>isConnected\<close> answers, is decided by the world the
  program runs in, which sees the events so far.
\<close>

datatype event =
    Client_init string nat
  | CommandFormatter_new
  | Thread_start_consume
  | Call_connect
  | Call_disconnect
  | Call_isConnected
  | Call_addCommand Command
  | Call_joinRoom string
  | Call_leaveRoom string
  | Call_setClientName string
  | Call_consume_one
  | Time_sleep nat
  | Print out_msg
  | Logging_error exn

record world =
  raises :: "event list \<Rightarrow> event \<Rightarrow> exn option"
  connected_answer :: "event list \<Rightarrow> bool"

text \<open>
  The fields that \<^verbatim>\<open>CliClient.__init__\<close> gives the object: the arguments handed to the
  base class and the \<^verbatim>\<open>terminate\<close> flag.
\<close>

record CliClient =
  host :: string
  port :: nat
  terminate :: bool

text \<open>
  The state a function of \<^verbatim>\<open>cli.py\<close> runs on: the events so far, and its local
  variables \<^verbatim>\<open>client\<close> (\<open>None\<close> for Python's \<^verbatim>\<open>None\<close>) and \<^verbatim>\<open>done\<close> (here \<open>is_done\<close>).
\<close>

record pstate =
  trace :: "event list"
  client :: "CliClient option"
  is_done :: bool

text \<open>A program over the state \<open>'s\<close>: it returns a value or raises, and leaves a state.\<close>

type_synonym ('s, 'a) prog = "'s \<Rightarrow> (exn + 'a) \<times> 's"

type_synonym 'a act = "(pstate, 'a) prog"

definition ret :: "'a \<Rightarrow> ('s, 'a) prog" where
  "ret x s = (Inr x, s)"

definition raise :: "exn \<Rightarrow> ('s, 'a) prog" where
  "raise e s = (Inl e, s)"

text \<open>A value, or the exception that computing it raised, inside a program.\<close>

definition lift :: "exn + 'a \<Rightarrow> ('s, 'a) prog" where
  "lift r s = (r, s)"

definition bnd :: "('s, 'a) prog \<Rightarrow> ('a \<Rightarrow> ('s, 'b) prog) \<Rightarrow> ('s, 'b) prog" where
  "bnd m f s = (case m s of (Inl e, s') \<Rightarrow> (Inl e, s') | (Inr x, s') \<Rightarrow> f x s')"

definition thn :: "('s, unit) prog \<Rightarrow> ('s, 'b) prog \<Rightarrow> ('s, 'b) prog" where
  "thn m n = bnd m (\<lambda>_. n)"

text \<open>\<^verbatim>\<open>try: m except <matching> as e: h e\<close>; the handler maps the exceptions it does not
  catch to \<open>None\<close>.\<close>

definition try_except :: "('s, 'a) prog \<Rightarrow> (exn \<Rightarrow> ('s, 'a) prog option) \<Rightarrow> ('s, 'a) prog" where
  "try_except m h s =
     (case m s of
        (Inr x, s') \<Rightarrow> (Inr x, s')
      | (Inl e, s') \<Rightarrow> (case h e of None \<Rightarrow> (Inl e, s') | Some k \<Rightarrow> k s'))"

text \<open>\<^verbatim>\<open>try: m finally: fin\<close>: the final block runs on every path, and an exception of
  its own replaces the outcome of the body.\<close>

definition try_finally :: "('s, 'a) prog \<Rightarrow> ('s, unit) prog \<Rightarrow> ('s, 'a) prog" where
  "try_finally m fin s =
     (case m s of
        (r, s') \<Rightarrow> (case fin s' of (Inl e, s'') \<Rightarrow> (Inl e, s'') | (Inr _, s'') \<Rightarrow> (r, s'')))"

text \<open>A call into the code outside the source files: recorded, then it returns or raises.\<close>

definition call :: "world \<Rightarrow> event \<Rightarrow> unit act" where
  "call w ev s =
     (case raises w (trace s) ev of
        Some e \<Rightarrow> (Inl e, s\<lparr>trace := trace s @ [ev]\<rparr>)
      | None \<Rightarrow> (Inr (), s\<lparr>trace := trace s @ [ev]\<rparr>))"

text \<open>\<^verbatim>\<open>print\<close> and \<^verbatim>\<open>logging.error\<close>: recorded, never raising.\<close>

definition emit :: "event \<Rightarrow> unit act" where
  "emit ev s = (Inr (), s\<lparr>trace := trace s @ [ev]\<rparr>)"

fun for_each :: "('a \<Rightarrow> ('s, unit) prog) \<Rightarrow> 'a list \<Rightarrow> ('s, unit) prog" where
  "for_each f [] = ret ()"
| "for_each f (x # xs) = thn (f x) (for_each f xs)"

definition init_state :: pstate where
  "init_state = \<lparr>trace = [], client = None, is_done = False\<rparr>"

section \<open>The class CliClient\<close>

text \<open>
  \<^verbatim>\<open>CliClient.__init__\<close>: initialise the base class with host and port, create the
  formatter, clear \<^verbatim>\<open>terminate\<close>, create the consumer thread on \<^verbatim>\<open>self.consume\<close> and
  start it.
\<close>

record args =
  arg_host :: string
  arg_port :: nat
  command :: string
  name :: "string list"

definition CliClient_init :: "world \<Rightarrow> args \<Rightarrow> CliClient act" where
  "CliClient_init w a =
     thn (call w (Client_init (arg_host a) (arg_port a)))
    (thn (call w CommandFormatter_new)
    (thn (call w Thread_start_consume)
         (ret \<lparr>host = arg_host a, port = arg_port a, terminate = False\<rparr>)))"

text \<open>The assignment \<^verbatim>\<open>client = CliClient(args)\<close>.\<close>

definition new_client :: "world \<Rightarrow> args \<Rightarrow> unit act" where
  "new_client w a = bnd (CliClient_init w a) (\<lambda>c s. (Inr (), s\<lparr>client := Some c\<rparr>))"

definition post_command :: "world \<Rightarrow> Command \<Rightarrow> unit act" where
  "post_command w c = call w (Call_addCommand c)"

definition listRooms :: "world \<Rightarrow> unit act" where
  "listRooms w = post_command w (Command1 LIST_ROOMS)"

definition deleteRoom :: "world \<Rightarrow> string \<Rightarrow> unit act" where
  "deleteRoom w n = bnd (lift (encode n)) (\<lambda>d. post_command w (Command2 DELETE_ROOM d))"

definition clearRoom :: "world \<Rightarrow> string \<Rightarrow> unit act" where
  "clearRoom w n = bnd (lift (encode n)) (\<lambda>d. post_command w (Command2 CLEAR_ROOM d))"

definition listRoomClients :: "world \<Rightarrow> string \<Rightarrow> unit act" where
  "listRoomClients w n =
     bnd (lift (encode n)) (\<lambda>d. post_command w (Command2 LIST_ROOM_CLIENTS d))"

definition listClients :: "world \<Rightarrow> unit act" where
  "listClients w = post_command w (Command1 LIST_CLIENTS)"

definition listAllClients :: "world \<Rightarrow> unit act" where
  "listAllClients w = post_command w (Command1 LIST_ALL_CLIENTS)"

section \<open>The room and client commands of the command line\<close>

definition room_body :: "world \<Rightarrow> args \<Rightarrow> unit act" where
  "room_body w a =
     (if command a = ''list'' then
        thn (new_client w a) (thn (call w Call_connect) (listRooms w))
      else if command a = ''delete'' then
        (if length (name a) \<noteq> 0 then
           thn (new_client w a) (thn (call w Call_connect) (for_each (deleteRoom w) (name a)))
         else emit (Print Out_expected_names))
      else if command a = ''clear'' then
        (if length (name a) \<noteq> 0 then
           thn (new_client w a) (thn (call w Call_connect) (for_each (clearRoom w) (name a)))
         else emit (Print Out_expected_names))
      else if command a = ''clients'' then
        (if length (name a) \<noteq> 0 then
           thn (new_client w a) (thn (call w Call_connect) (for_each (listRoomClients w) (name a)))
         else emit (Print Out_expected_names))
      else ret ())"

definition log_ServerError :: "exn \<Rightarrow> unit act option" where
  "log_ServerError e = (if is_ServerError e then Some (emit (Logging_error e)) else None)"

text \<open>The final block of both functions, \<^verbatim>\<open>if client:\<close> and \<^verbatim>\<open>if client is not None:\<close>
  (a client object is true): a client that was assigned is disconnected.\<close>

definition disconnect_if_client :: "world \<Rightarrow> unit act" where
  "disconnect_if_client w s =
     (case client s of None \<Rightarrow> ret () s | Some c \<Rightarrow> call w Call_disconnect s)"

definition process_room_command :: "world \<Rightarrow> args \<Rightarrow> (exn + unit) \<times> pstate" where
  "process_room_command w a =
     try_finally (try_except (room_body w a) log_ServerError) (disconnect_if_client w) init_state"

definition client_body :: "world \<Rightarrow> args \<Rightarrow> unit act" where
  "client_body w a =
     (if command a = ''list'' then
        thn (new_client w a) (thn (call w Call_connect) (listClients w))
      else ret ())"

definition process_client_command :: "world \<Rightarrow> args \<Rightarrow> (exn + unit) \<times> pstate" where
  "process_client_command w a =
     try_finally (try_except (client_body w a) log_ServerError) (disconnect_if_client w) init_state"

text \<open>The commands handed to \<^verbatim>\<open>addCommand\<close>, in order.\<close>

fun posted :: "event list \<Rightarrow> Command list" where
  "posted [] = []"
| "posted (Call_addCommand c # es) = c # posted es"
| "posted (e # es) = posted es"

section \<open>Worlds and invariants of the command line functions\<close>

text \<open>A transport on which nothing raises, and the arguments of a run against it.\<close>

definition quiet_world :: world where
  "quiet_world = \<lparr>raises = (\<lambda>h ev. None), connected_answer = (\<lambda>h. True)\<rparr>"

definition local_args :: args where
  "local_args = \<lparr>arg_host = ''localhost'', arg_port = 12800, command = ''list'', name = []\<rparr>"

text \<open>A server that answers \<^verbatim>\<open>connect\<close> with a \<^verbatim>\<open>ServerError\<close>.\<close>

definition refusing_world :: world where
  "refusing_world =
     \<lparr>raises = (\<lambda>h ev. if ev = Call_connect then Some (Exn ServerError [''refused'']) else None),
      connected_answer = (\<lambda>h. False)\<rparr>"

text \<open>Every \<^verbatim>\<open>connect\<close> of the trace comes after a start of the consumer thread.\<close>

fun connect_after_start :: "bool \<Rightarrow> event list \<Rightarrow> bool" where
  "connect_after_start b [] = True"
| "connect_after_start b (Thread_start_consume # es) = connect_after_start True es"
| "connect_after_start b (Call_connect # es) = (b \<and> connect_after_start b es)"
| "connect_after_start b (e # es) = connect_after_start b es"

text \<open>
  A program started in a state satisfying \<open>P\<close> leaves a state satisfying \<open>Q\<close> when it
  returns and \<open>E\<close> when it raises.
\<close>

definition triple :: "(pstate \<Rightarrow> bool) \<Rightarrow> 'a act \<Rightarrow> (pstate \<Rightarrow> bool) \<Rightarrow> (pstate \<Rightarrow> bool) \<Rightarrow> bool" where
  "triple P m Q E =
     (\<forall>s r s'. P s \<longrightarrow> m s = (r, s') \<longrightarrow> (case r of Inr x \<Rightarrow> Q s' | Inl e \<Rightarrow> E s'))"

text \<open>The variable \<^verbatim>\<open>client\<close> holds a client only once its thread was started.\<close>

definition started :: "pstate \<Rightarrow> bool" where
  "started s = (client s \<noteq> None \<longrightarrow> Thread_start_consume \<in> set (trace s))"

text \<open>The order of \<^verbatim>\<open>connect\<close> after the thread start, as a property of the state; and
  the same with the thread already started.\<close>

definition ordered :: "pstate \<Rightarrow> bool" where
  "ordered s = connect_after_start False (trace s)"

definition running :: "pstate \<Rightarrow> bool" where
  "running s = (connect_after_start False (trace s) \<and> Thread_start_consume \<in> set (trace s))"

section \<open>The background consumption loop\<close>

text \<open>
  \<^verbatim>\<open>CliClient.consume\<close> runs on its own thread while the main thread may set
  \<^verbatim>\<open>terminate\<close>. The loop is a machine with a program counter: at the guard it reads
  \<^verbatim>\<open>self.terminate\<close>; then it calls \<^verbatim>\<open>consume_one\<close>; then it sleeps 0.1 seconds when
  nothing was received, and otherwise disconnects on \<^verbatim>\<open>CONNECTION_LOST\<close> and prints the
  command and the fake prompt; then it is back at the guard. The calls into the
  transport are taken to return. What the successive calls of \<^verbatim>\<open>consume_one\<close> return is
  the list \<open>inbound\<close> (\<open>None\<close>, and every call after the end of the list: nothing is
  buffered).
\<close>

datatype pc = At_guard | At_consume | At_received "Command option" | Exited

record consumer =
  self :: CliClient
  pc :: pc
  inbound :: "Command option list"
  events :: "event list"

definition loop_step :: "consumer \<Rightarrow> consumer" where
  "loop_step c =
     (case pc c of
        At_guard \<Rightarrow> (if terminate (self c) then c\<lparr>pc := Exited\<rparr> else c\<lparr>pc := At_consume\<rparr>)
      | At_consume \<Rightarrow>
          (case inbound c of
             [] \<Rightarrow> c\<lparr>pc := At_received None, events := events c @ [Call_consume_one]\<rparr>
           | r # rs \<Rightarrow> c\<lparr>pc := At_received r, inbound := rs,
                         events := events c @ [Call_consume_one]\<rparr>)
      | At_received None \<Rightarrow> c\<lparr>pc := At_guard, events := events c @ [Time_sleep 100]\<rparr>
      | At_received (Some received) \<Rightarrow>
          c\<lparr>pc := At_guard,
            events := events c
              @ (if type received = CONNECTION_LOST then [Call_disconnect] else [])
              @ [Print (Out_formatted received), Print Out_fake_prompt]\<rparr>
      | Exited \<Rightarrow> c)"

text \<open>
  A schedule interleaves the steps of the loop with the one action of the main thread
  on the shared flag, \<^verbatim>\<open>client.terminate = True\<close>.
\<close>

datatype tick = Loop_tick | Main_sets_terminate

fun tick_step :: "tick \<Rightarrow> consumer \<Rightarrow> consumer" where
  "tick_step Loop_tick c = loop_step c"
| "tick_step Main_sets_terminate c = c\<lparr>self := (self c)\<lparr>terminate := True\<rparr>\<rparr>"

fun run :: "tick list \<Rightarrow> consumer \<Rightarrow> consumer" where
  "run [] c = c"
| "run (t # ts) c = run ts (tick_step t c)"

definition loop_ticks :: "tick list \<Rightarrow> nat" where
  "loop_ticks ts = length (filter (\<lambda>t. t = Loop_tick) ts)"

definition consume_calls :: "event list \<Rightarrow> nat" where
  "consume_calls es = length (filter (\<lambda>e. e = Call_consume_one) es)"

definition sleeps :: "event list \<Rightarrow> nat" where
  "sleeps es = length (filter (\<lambda>e. e = Time_sleep 100) es)"

text \<open>What is left of the current iteration at each point of the loop.\<close>

fun consumes_left :: "pc \<Rightarrow> nat" where
  "consumes_left At_consume = 1"
| "consumes_left p = 0"

fun sleeps_left :: "pc \<Rightarrow> nat" where
  "sleeps_left At_consume = 1"
| "sleeps_left (At_received None) = 1"
| "sleeps_left p = 0"

fun steps_to_exit :: "pc \<Rightarrow> nat" where
  "steps_to_exit At_guard = 1"
| "steps_to_exit At_consume = 3"
| "steps_to_exit (At_received r) = 2"
| "steps_to_exit Exited = 0"

text \<open>The thread as the constructor starts it, with the given inbound commands.\<close>

definition started_consumer :: "Command option list \<Rightarrow> consumer" where
  "started_consumer rs =
     \<lparr>self = \<lparr>host = ''localhost'', port = 12800, terminate = False\<rparr>, pc = At_guard,
      inbound = rs, events = []\<rparr>"

section \<open>The interactive loop\<close>

text \<open>
  The list \<^verbatim>\<open>commands\<close>. In the source no comma separates \<^verbatim>\<open>"help"\<close> from
  \<^verbatim>\<open>"exit"\<close>, so Python joins the two literals into one entry.
\<close>

definition commands :: "string list" where
  "commands =
     [''connect'', ''disconnect'', ''listrooms'', ''join <roomname>'', ''leave <roomname>'',
      ''listjoinedclients'', ''listallclients'', ''setclientname <clientname>'',
      ''listroomclients <roomname>'', ''helpexit'']"

text \<open>\<^verbatim>\<open>candidates[0].split()[0]\<close> on an entry of \<^verbatim>\<open>commands\<close>: the text before the
  first space.\<close>

definition first_word :: "string \<Rightarrow> string" where
  "first_word c = takeWhile (\<lambda>x. x \<noteq> CHR '' '') c"

text \<open>\<^verbatim>\<open>command_args[0]\<close>, an \<^verbatim>\<open>IndexError\<close> on the empty list.\<close>

definition arg0 :: "string list \<Rightarrow> string act" where
  "arg0 xs = (case xs of [] \<Rightarrow> raise (Exn IndexError [''list index out of range'']) | x # _ \<Rightarrow> ret x)"

text \<open>\<^verbatim>\<open>client is None or not client.isConnected()\<close>; the call is made only on a client.\<close>

definition not_connected :: "world \<Rightarrow> bool act" where
  "not_connected w s =
     (case client s of
        None \<Rightarrow> (Inr True, s)
      | Some c \<Rightarrow> bnd (call w Call_isConnected) (\<lambda>_. ret (\<not> connected_answer w (trace s))) s)"

definition Not_connected :: exn where
  "Not_connected = Exn RuntimeError [''Not connected, use '' @ [CHR 0x22] @ ''connect'' @ [CHR 0x22] @ '' first'']"

text \<open>\<^verbatim>\<open>client.terminate = True; done = True\<close>, on \<^verbatim>\<open>None\<close> an \<^verbatim>\<open>AttributeError\<close>.\<close>

definition exit_command :: "unit act" where
  "exit_command s =
     (case client s of
        None \<Rightarrow> (Inl (Exn AttributeError [''terminate'']), s)
      | Some c \<Rightarrow> (Inr (), s\<lparr>client := Some (c\<lparr>terminate := True\<rparr>), is_done := True\<rparr>))"

definition forget_client :: "unit act" where
  "forget_client s = (Inr (), s\<lparr>client := None\<rparr>)"

text \<open>Lines 184 to 215: the branch on the resolved command.\<close>

definition dispatch :: "world \<Rightarrow> args \<Rightarrow> string \<Rightarrow> string list \<Rightarrow> unit act" where
  "dispatch w a cmd command_args =
     (if cmd = ''connect'' then
        bnd (not_connected w)
          (\<lambda>nc. if nc then new_client w a else emit (Print Out_already_connected))
      else if cmd = ''exit'' then exit_command
      else if cmd = ''help'' then emit (Print (Out_help commands))
      else
        bnd (not_connected w)
          (\<lambda>nc. if nc then raise Not_connected
                else if cmd = ''listrooms'' then listRooms w
                else if cmd = ''listroomclients'' then bnd (arg0 command_args) (listRoomClients w)
                else if cmd = ''listjoinedclients'' then listClients w
                else if cmd = ''listallclients'' then listAllClients w
                else if cmd = ''join'' then
                  bnd (arg0 command_args) (\<lambda>n. call w (Call_joinRoom n))
                else if cmd = ''leave'' then
                  bnd (arg0 command_args) (\<lambda>n. call w (Call_leaveRoom n))
                else if cmd = ''setclientname'' then
                  bnd (arg0 command_args) (\<lambda>n. call w (Call_setClientName n))
                else if cmd = ''disconnect'' then thn (call w Call_disconnect) forget_client
                else ret ()))"

text \<open>\<^verbatim>\<open>except Exception as e: print(f'Exception: {e}')\<close>.\<close>

definition print_exception :: "exn \<Rightarrow> unit act option" where
  "print_exception e = (if is_Exception e then Some (emit (Print (Out_exception e))) else None)"

text \<open>
  One pass through the body of the \<^verbatim>\<open>while\<close> of \<^verbatim>\<open>interactive_loop\<close>, from the prompt
  on; \<open>items\<close> is \<^verbatim>\<open>user_input.split()\<close>.
\<close>

definition interactive_iteration :: "world \<Rightarrow> args \<Rightarrow> string list \<Rightarrow> unit act" where
  "interactive_iteration w a items =
     try_except
       (thn (emit (Print Out_prompt))
         (case items of
            [] \<Rightarrow> ret ()
          | input_command # command_args \<Rightarrow>
              (let candidates = filter (prefix input_command) commands in
               if length candidates = 0 then
                 thn (emit (Print (Out_not_recognised input_command)))
                     (emit (Print (Out_help commands)))
               else if length candidates \<ge> 2 then
                 emit (Print (Out_ambiguous input_command candidates))
               else
                 (let cmd = first_word (hd candidates) in
                  thn (if input_command \<noteq> cmd then emit (Print (Out_echo cmd command_args))
                       else ret ())
                      (dispatch w a cmd command_args)))))
       print_exception"

section \<open>The contract of the transport\<close>

text \<open>
  Modelled from the spec: \<^verbatim>\<open>client.Client.addCommand\<close>, the transport's \<^verbatim>\<open>post\<close>, is
  not among the source files. By sections 4.3 and 8 the operations require an
  established connection and a post on a client that is not connected fails fast: it
  is rejected, not silently dropped. A world keeps that contract when \<^verbatim>\<open>addCommand\<close>
  raises wherever \<^verbatim>\<open>isConnected\<close> would answer no.
\<close>

definition rejects_when_disconnected :: "world \<Rightarrow> bool" where
  "rejects_when_disconnected w =
     (\<forall>h c. \<not> connected_answer w h \<longrightarrow> raises w h (Call_addCommand c) \<noteq> None)"

text \<open>
  The commands the transport accepted: those of the calls of \<^verbatim>\<open>addCommand\<close> that
  returned, found by replaying the events after the history \<open>pre\<close>.
\<close>

fun enqueued :: "world \<Rightarrow> event list \<Rightarrow> event list \<Rightarrow> Command list" where
  "enqueued w pre [] = []"
| "enqueued w pre (Call_addCommand c # es) =
     (if raises w pre (Call_addCommand c) = None then [c] else [])
     @ enqueued w (pre @ [Call_addCommand c]) es"
| "enqueued w pre (e # es) = enqueued w (pre @ [e]) es"

text \<open>An operation run from the state \<open>s\<close> was rejected: it raised, and the transport
  accepted no command from it.\<close>

definition rejected :: "world \<Rightarrow> pstate \<Rightarrow> (exn + unit) \<times> pstate \<Rightarrow> bool" where
  "rejected w s r = (isl (fst r) \<and> enqueued w [] (trace (snd r)) = enqueued w [] (trace s))"

text \<open>
  Modelled from the spec: the connection state of \<^verbatim>\<open>client.Client\<close> (section 4.2), not
  among the source files. A client is created not connected, \<^verbatim>\<open>connect\<close> establishes
  the connection and \<^verbatim>\<open>disconnect\<close> marks it not connected; \<^verbatim>\<open>is_connected\<close> reads the
  state. The transport below keeps the contract: its \<^verbatim>\<open>addCommand\<close> raises on a client
  that is not connected, and nothing else raises.
\<close>

fun transport_connected :: "bool \<Rightarrow> event list \<Rightarrow> bool" where
  "transport_connected b [] = b"
| "transport_connected b (Call_connect # es) = transport_connected True es"
| "transport_connected b (Call_disconnect # es) = transport_connected False es"
| "transport_connected b (e # es) = transport_connected b es"

definition spec_transport :: world where
  "spec_transport =
     \<lparr>raises = (\<lambda>h ev. case ev of
                   Call_addCommand c \<Rightarrow>
                     (if transport_connected False h then None
                      else Some (Exn RuntimeError [''not connected'']))
                 | _ \<Rightarrow> None),
      connected_answer = transport_connected False\<rparr>"

text \<open>A state of the interactive loop that holds a client.\<close>

definition with_client :: pstate where
  "with_client =
     \<lparr>trace = [], client = Some \<lparr>host = ''localhost'', port = 12800, terminate = False\<rparr>,
      is_done = False\<rparr>"

section \<open>Capture logs, their normalisation and the equivalence oracle\<close>

text \<open>
  A capture log maps a substream identifier to the ordered sequence of the commands
  received on it; here an association list read through \<open>map_of\<close>.
\<close>

type_synonym CaptureLog = "(nat \<times> Command list) list"

text \<open>
  Modelled from the spec: \<^verbatim>\<open>Grabber.sort\<close> (the module \<^verbatim>\<open>tests.grabber\<close> is not among the
  source files). It normalises every substream's sequence with a stable sort on a key
  computed from the content of the command: here the type tag followed by the payload
  bytes, in lexicographic order.
\<close>

fun type_rank :: "MessageType \<Rightarrow> nat" where
  "type_rank LIST_ROOMS = 0"
| "type_rank DELETE_ROOM = 1"
| "type_rank CLEAR_ROOM = 2"
| "type_rank LIST_ROOM_CLIENTS = 3"
| "type_rank LIST_CLIENTS = 4"
| "type_rank LIST_ALL_CLIENTS = 5"
| "type_rank CONNECTION_LOST = 6"
| "type_rank (OTHER_TYPE n) = 7 + n"

definition content_key :: "Command \<Rightarrow> nat list" where
  "content_key c = type_rank (type c) # map of_char (data c)"

definition sort_log :: "CaptureLog \<Rightarrow> CaptureLog" where
  "sort_log log = map (\<lambda>(k, cs). (k, sort_key content_key cs)) log"

text \<open>
  Modelled from the spec: the stream equivalence oracle \<^verbatim>\<open>compare\<close> of section 4.5,
  which \<^verbatim>\<open>assert_matches\<close> reaches as \<^verbatim>\<open>self.assert_stream_equals\<close> (not defined in the
  source files). For the substream identifiers of either log it compares the two
  sequences element by element; the first mismatch of an element or of the length is a
  divergence with the substream, the index and the two values, and a substream that
  only one log has is a missing substream.
\<close>

datatype EquivalenceResult =
    Equivalent
  | Missing_substream nat
  | Divergence nat nat "Command option" "Command option"

fun first_mismatch :: "nat \<Rightarrow> Command list \<Rightarrow> Command list
    \<Rightarrow> (nat \<times> Command option \<times> Command option) option" where
  "first_mismatch i [] [] = None"
| "first_mismatch i (x # xs) [] = Some (i, Some x, None)"
| "first_mismatch i [] (y # ys) = Some (i, None, Some y)"
| "first_mismatch i (x # xs) (y # ys) =
     (if x = y then first_mismatch (Suc i) xs ys else Some (i, Some x, Some y))"

fun compare_substreams :: "nat list \<Rightarrow> CaptureLog \<Rightarrow> CaptureLog \<Rightarrow> EquivalenceResult" where
  "compare_substreams [] a b = Equivalent"
| "compare_substreams (k # ks) a b =
     (case (map_of a k, map_of b k) of
        (Some xs, Some ys) \<Rightarrow>
          (case first_mismatch 0 xs ys of
             None \<Rightarrow> compare_substreams ks a b
           | Some (i, x, y) \<Rightarrow> Divergence k i x y)
      | _ \<Rightarrow> Missing_substream k)"

definition compare :: "CaptureLog \<Rightarrow> CaptureLog \<Rightarrow> EquivalenceResult" where
  "compare a b = compare_substreams (remdups (map fst a @ map fst b)) a b"

fun describe :: "EquivalenceResult \<Rightarrow> string list" where
  "describe Equivalent = []"
| "describe (Missing_substream k) = [''missing substream'']"
| "describe (Divergence k i x y) = [''divergence'']"

definition assert_stream_equals :: "CaptureLog \<Rightarrow> CaptureLog \<Rightarrow> ('s, unit) prog" where
  "assert_stream_equals s r =
     (if compare s r = Equivalent then ret ()
      else raise (Exn failureException (describe (compare s r))))"

section \<open>The test case\<close>

text \<open>
  \<^verbatim>\<open>tests.blender_app\<close>, \<^verbatim>\<open>tests.grabber\<close> and \<^verbatim>\<open>tests.process\<close> are outside the
  source files: the calls into them are the events of the test's trace (sleeps in
  milliseconds). \<open>Own_server_kill\<close> is \<^verbatim>\<open>self._server_process.kill()\<close>; the other server
  events are on the local \<^verbatim>\<open>server_process\<close>.
\<close>

datatype blender = Sender | Receiver

datatype tevent =
    Disconnect_mixer blender
  | Connect_and_join_mixer blender string bool bool
  | Sleep_ms nat
  | Own_server_kill
  | ServerProcess_new
  | Server_start
  | Server_kill
  | Grabber_new blender
  | Grab string nat string
  | Grabber_sort blender

text \<open>
  What the test runs in: which calls raise, the number of entries of \<^verbatim>\<open>self._blenders\<close>,
  the attribute \<^verbatim>\<open>experimental_sync\<close>, host and port of the new server process, and
  the streams a grabber holds after grabbing a room.
\<close>

record testcase =
  t_raises :: "tevent list \<Rightarrow> tevent \<Rightarrow> exn option"
  blenders :: nat
  experimental_sync :: bool
  server_host :: string
  server_port :: nat
  captured :: "string \<Rightarrow> CaptureLog"

type_synonym 'a tact = "(tevent list, 'a) prog"

definition tcall :: "testcase \<Rightarrow> tevent \<Rightarrow> unit tact" where
  "tcall w ev t = (case t_raises w t ev of Some e \<Rightarrow> (Inl e, t @ [ev]) | None \<Rightarrow> (Inr (), t @ [ev]))"

text \<open>The properties \<^verbatim>\<open>_sender\<close> and \<^verbatim>\<open>_receiver\<close>: \<^verbatim>\<open>self._blenders[0]\<close> and
  \<^verbatim>\<open>self._blenders[1]\<close>.\<close>

fun blender_index :: "blender \<Rightarrow> nat" where
  "blender_index Sender = 0"
| "blender_index Receiver = 1"

definition on_blender :: "testcase \<Rightarrow> blender \<Rightarrow> tevent \<Rightarrow> unit tact" where
  "on_blender w b ev =
     (if blender_index b < blenders w then tcall w ev
      else raise (Exn IndexError [''list index out of range'']))"

text \<open>
  Modelled from the spec: \<^verbatim>\<open>Grabber.grab(host, port, room_name)\<close>; it fails (a
  \<^verbatim>\<open>RuntimeError\<close> that the world decides) or leaves the captured streams in the grabber.
\<close>

definition grab :: "testcase \<Rightarrow> string \<Rightarrow> CaptureLog tact" where
  "grab w room =
     thn (tcall w (Grab (server_host w) (server_port w) room)) (ret (captured w room))"

text \<open>\<^verbatim>\<open>except RuntimeError as e: raise self.failureException(*e.args)\<close>.\<close>

definition as_failure :: "exn \<Rightarrow> ('s, 'a) prog option" where
  "as_failure e =
     (if is_RuntimeError e then Some (raise (Exn failureException (exn_args e))) else None)"

text \<open>Lines 135 to 168 of \<^verbatim>\<open>assert_matches\<close>, the body of the \<^verbatim>\<open>try\<close>.\<close>

definition capture_both :: "testcase \<Rightarrow> (CaptureLog \<times> CaptureLog) tact" where
  "capture_both w =
     thn (on_blender w Sender
            (Connect_and_join_mixer Sender ''mixer_grab_sender'' True (experimental_sync w)))
    (thn (tcall w (Sleep_ms 1000))
    (thn (on_blender w Sender (Disconnect_mixer Sender))
    (thn (tcall w (Grabber_new Sender))
    (bnd (try_except (grab w ''mixer_grab_sender'') as_failure) (\<lambda>s0.
     thn (tcall w (Grabber_sort Sender))
    (thn (on_blender w Receiver
            (Connect_and_join_mixer Receiver ''mixer_grab_receiver'' True (experimental_sync w)))
    (thn (tcall w (Sleep_ms 1000))
    (thn (on_blender w Receiver (Disconnect_mixer Receiver))
    (thn (tcall w (Grabber_new Receiver))
    (bnd (try_except (grab w ''mixer_grab_receiver'') as_failure) (\<lambda>r0.
     thn (tcall w (Grabber_sort Receiver))
         (ret (sort_log s0, sort_log r0)))))))))))))"

definition assert_matches :: "testcase \<Rightarrow> (exn + unit) \<times> tevent list" where
  "assert_matches w =
     thn (on_blender w Sender (Disconnect_mixer Sender))
    (thn (on_blender w Receiver (Disconnect_mixer Receiver))
    (thn (tcall w (Sleep_ms 500))
    (thn (tcall w Own_server_kill)
    (thn (tcall w ServerProcess_new)
    (thn (tcall w Server_start)
    (bnd (try_finally (capture_both w) (tcall w Server_kill))
         (\<lambda>(s, r). assert_stream_equals s r)))))))
     []"

text \<open>The rooms grabbed in a trace, in order.\<close>

fun grabbed_rooms :: "tevent list \<Rightarrow> string list" where
  "grabbed_rooms [] = []"
| "grabbed_rooms (Grab h p room # es) = room # grabbed_rooms es"
| "grabbed_rooms (e # es) = grabbed_rooms es"

text \<open>A test with two Blender instances in which nothing raises; the receiver got the
  two commands of substream 1 in the other order.\<close>

definition cmd_a :: Command where
  "cmd_a = \<lparr>type = OTHER_TYPE 0, data = ''a''\<rparr>"

definition cmd_b :: Command where
  "cmd_b = \<lparr>type = OTHER_TYPE 0, data = ''b''\<rparr>"

definition calm_test :: testcase where
  "calm_test =
     \<lparr>t_raises = (\<lambda>t ev. None), blenders = 2, experimental_sync = False,
      server_host = ''127.0.0.1'', server_port = 12800,
      captured = (\<lambda>room. if room = ''mixer_grab_sender'' then [(1, [cmd_a, cmd_b])]
                          else [(1, [cmd_b, cmd_a])])\<rparr>"

text \<open>The same test with a grab of the given room that raises the given exception.\<close>

definition failing_grab :: "string \<Rightarrow> exn \<Rightarrow> testcase" where
  "failing_grab room e =
     calm_test\<lparr>t_raises :=
       (\<lambda>t ev. if ev = Grab ''127.0.0.1'' 12800 room then Some e else None)\<rparr>"

section \<open>Properties of the command line functions\<close>

lemma call_no_raise:
  "raises w (trace s) ev = None \<Longrightarrow> call w ev s = (Inr (), s\<lparr>trace := trace s @ [ev]\<rparr>)"
  by (simp add: call_def)

lemma for_each_call_no_raise:
  "\<forall>h ev. raises w h ev = None \<Longrightarrow>
   for_each (\<lambda>n. call w (g n)) ns s = (Inr (), s\<lparr>trace := trace s @ map g ns\<rparr>)"
proof (induction ns arbitrary: s)
  case Nil
  show ?case by (simp add: ret_def)
next
  case (Cons n ns)
  have "call w (g n) s = (Inr (), s\<lparr>trace := trace s @ [g n]\<rparr>)"
    using Cons.prems by (simp add: call_def)
  then show ?case
    using Cons.IH [OF Cons.prems] by (simp add: thn_def bnd_def)
qed

lemma posted_append: "posted (xs @ ys) = posted xs @ posted ys"
  by (induction xs rule: posted.induct) simp_all

lemma posted_map_addCommand: "posted (map (\<lambda>n. Call_addCommand (f n)) ns) = map f ns"
  by (induction ns) simp_all

lemma new_client_no_raise:
  "\<forall>h ev. raises w h ev = None \<Longrightarrow>
   new_client w a s =
     (Inr (), s\<lparr>trace := trace s @ [Client_init (arg_host a) (arg_port a), CommandFormatter_new,
                                     Thread_start_consume],
               client := Some \<lparr>host = arg_host a, port = arg_port a, terminate = False\<rparr>\<rparr>)"
  by (simp add: new_client_def CliClient_init_def thn_def bnd_def call_def ret_def)

lemma room_ops_as_calls:
  "deleteRoom w =
     (\<lambda>n. bnd (lift (encode n)) (\<lambda>d. call w (Call_addCommand (Command2 DELETE_ROOM d))))"
  "clearRoom w =
     (\<lambda>n. bnd (lift (encode n)) (\<lambda>d. call w (Call_addCommand (Command2 CLEAR_ROOM d))))"
  "listRoomClients w =
     (\<lambda>n. bnd (lift (encode n)) (\<lambda>d. call w (Call_addCommand (Command2 LIST_ROOM_CLIENTS d))))"
  by (rule ext, simp add: deleteRoom_def clearRoom_def listRoomClients_def post_command_def)+

text \<open>
  ASCII and well-formed multi-byte sequences can be encoded; a byte that Python decoded
  to a lone surrogate, alone or as the UTF-8 shape of a surrogate, a truncated sequence
  and an overlong form cannot.
\<close>

lemma encodable_examples:
  "encodable ''room''"
  "encodable [CHR 0xC3, CHR 0xA9]"
  "encodable [CHR 0xE2, CHR 0x82, CHR 0xAC]"
  "encodable [CHR 0xF0, CHR 0x9F, CHR 0x98, CHR 0x80]"
  "\<not> encodable [CHR 0xFF]"
  "\<not> encodable [CHR 0xED, CHR 0xA0, CHR 0x80]"
  "\<not> encodable [CHR 0xE2, CHR 0x82]"
  "\<not> encodable [CHR 0xC0, CHR 0x80]"
  by (simp_all add: encodable_def lead_byte_def)

lemma encode_encodable: "encodable n \<Longrightarrow> encode n = Inr n"
  by (simp add: encode_def)

lemma for_each_encoded_no_raise:
  "\<forall>h ev. raises w h ev = None \<Longrightarrow>
   for_each (\<lambda>n. bnd (lift (encode n)) (\<lambda>d. call w (g d))) ns s =
     (if list_all encodable ns then Inr ()
      else Inl (Exn UnicodeEncodeError [''utf-8'', ''surrogates not allowed'']),
      s\<lparr>trace := trace s @ map (\<lambda>n. g (projr (encode n))) (takeWhile encodable ns)\<rparr>)"
proof (induction ns arbitrary: s)
  case Nil
  show ?case by (simp add: ret_def)
next
  case (Cons n ns)
  show ?case
  proof (cases "encodable n")
    case True
    have "bnd (lift (encode n)) (\<lambda>d. call w (g d)) s = (Inr (), s\<lparr>trace := trace s @ [g n]\<rparr>)"
      using Cons.prems True by (simp add: bnd_def lift_def encode_def call_def)
    then show ?thesis
      using Cons.IH [OF Cons.prems] True by (simp add: thn_def bnd_def encode_encodable)
  next
    case False
    then show ?thesis by (simp add: thn_def bnd_def lift_def encode_def)
  qed
qed

lemma UnicodeEncodeError_not_logged:
  "log_ServerError (Exn UnicodeEncodeError args) = None"
  by (simp add: log_ServerError_def is_ServerError_def)

lemma batch_run:
  assumes nr: "\<forall>h ev. raises w h ev = None"
  shows "try_finally (try_except
           (thn (new_client w a) (thn (call w Call_connect)
              (for_each (\<lambda>n. bnd (lift (encode n)) (\<lambda>d. call w (g d))) ns)))
           log_ServerError) (disconnect_if_client w) init_state =
         (if list_all encodable ns then Inr ()
          else Inl (Exn UnicodeEncodeError [''utf-8'', ''surrogates not allowed'']),
          \<lparr>trace = [Client_init (arg_host a) (arg_port a), CommandFormatter_new,
                     Thread_start_consume, Call_connect]
                    @ map (\<lambda>n. g (projr (encode n))) (takeWhile encodable ns) @ [Call_disconnect],
           client = Some \<lparr>host = arg_host a, port = arg_port a, terminate = False\<rparr>,
           is_done = False\<rparr>)"
  using nr
  by (simp add: try_finally_def try_except_def thn_def bnd_def new_client_no_raise
      for_each_encoded_no_raise call_def disconnect_if_client_def init_state_def
      UnicodeEncodeError_not_logged)

lemma single_run:
  assumes nr: "\<forall>h ev. raises w h ev = None"
  shows "try_finally (try_except
           (thn (new_client w a) (thn (call w Call_connect) (call w ev)))
           log_ServerError) (disconnect_if_client w) init_state =
         (Inr (), \<lparr>trace = [Client_init (arg_host a) (arg_port a), CommandFormatter_new,
                     Thread_start_consume, Call_connect, ev, Call_disconnect],
                   client = Some \<lparr>host = arg_host a, port = arg_port a, terminate = False\<rparr>,
                   is_done = False\<rparr>)"
  using nr
  by (simp add: try_finally_def try_except_def thn_def bnd_def new_client_no_raise
      call_def disconnect_if_client_def init_state_def)

text \<open>
  Claim C6, amended. When no call into the transport raises, a batch room command on a
  non-empty list of names hands \<^verbatim>\<open>addCommand\<close> exactly one command for each name up to
  the first that cannot be encoded in UTF-8, in the order of the names, of type
  \<^verbatim>\<open>DELETE_ROOM\<close>, \<^verbatim>\<open>CLEAR_ROOM\<close> or \<^verbatim>\<open>LIST_ROOM_CLIENTS\<close> and with the encoded name as
  payload. When every name can be encoded that is one command per name and the function
  returns; otherwise \<^verbatim>\<open>name.encode()\<close> raises \<^verbatim>\<open>UnicodeEncodeError\<close> at the first name
  that cannot, and nothing is posted for it or for the names after it. The list
  operations without a parameter post one command of their type with the empty payload.
\<close>

theorem batch_posts_one_command_per_encodable_name:
  assumes "\<forall>h ev. raises w h ev = None" and "names \<noteq> []"
  shows "posted (trace (snd (process_room_command w (a\<lparr>command := ''delete'', name := names\<rparr>))))
           = map (\<lambda>n. \<lparr>type = DELETE_ROOM, data = projr (encode n)\<rparr>) (takeWhile encodable names)
       \<and> posted (trace (snd (process_room_command w (a\<lparr>command := ''clear'', name := names\<rparr>))))
           = map (\<lambda>n. \<lparr>type = CLEAR_ROOM, data = projr (encode n)\<rparr>) (takeWhile encodable names)
       \<and> posted (trace (snd (process_room_command w (a\<lparr>command := ''clients'', name := names\<rparr>))))
           = map (\<lambda>n. \<lparr>type = LIST_ROOM_CLIENTS, data = projr (encode n)\<rparr>)
               (takeWhile encodable names)
       \<and> fst (process_room_command w (a\<lparr>command := ''delete'', name := names\<rparr>))
           = (if list_all encodable names then Inr ()
              else Inl (Exn UnicodeEncodeError [''utf-8'', ''surrogates not allowed'']))
       \<and> fst (process_room_command w (a\<lparr>command := ''clear'', name := names\<rparr>))
           = (if list_all encodable names then Inr ()
              else Inl (Exn UnicodeEncodeError [''utf-8'', ''surrogates not allowed'']))
       \<and> fst (process_room_command w (a\<lparr>command := ''clients'', name := names\<rparr>))
           = (if list_all encodable names then Inr ()
              else Inl (Exn UnicodeEncodeError [''utf-8'', ''surrogates not allowed'']))
       \<and> posted (trace (snd (process_room_command w (a\<lparr>command := ''list''\<rparr>))))
           = [\<lparr>type = LIST_ROOMS, data = []\<rparr>]
       \<and> posted (trace (snd (process_client_command w (a\<lparr>command := ''list''\<rparr>))))
           = [\<lparr>type = LIST_CLIENTS, data = []\<rparr>]
       \<and> posted (trace (snd (listAllClients w s)))
           = posted (trace s) @ [\<lparr>type = LIST_ALL_CLIENTS, data = []\<rparr>]"
proof -
  have d: "process_room_command w (a\<lparr>command := ''delete'', name := names\<rparr>) =
         (if list_all encodable names then Inr ()
          else Inl (Exn UnicodeEncodeError [''utf-8'', ''surrogates not allowed'']),
          \<lparr>trace = [Client_init (arg_host a) (arg_port a), CommandFormatter_new,
                     Thread_start_consume, Call_connect]
                    @ map (\<lambda>n. Call_addCommand (Command2 DELETE_ROOM (projr (encode n))))
                        (takeWhile encodable names) @ [Call_disconnect],
           client = Some \<lparr>host = arg_host a, port = arg_port a, terminate = False\<rparr>,
           is_done = False\<rparr>)"
    using assms(2) batch_run [OF assms(1), of "a\<lparr>command := ''delete'', name := names\<rparr>"
        "\<lambda>d. Call_addCommand (Command2 DELETE_ROOM d)" names]
    by (simp add: process_room_command_def room_body_def room_ops_as_calls)
  have c: "process_room_command w (a\<lparr>command := ''clear'', name := names\<rparr>) =
         (if list_all encodable names then Inr ()
          else Inl (Exn UnicodeEncodeError [''utf-8'', ''surrogates not allowed'']),
          \<lparr>trace = [Client_init (arg_host a) (arg_port a), CommandFormatter_new,
                     Thread_start_consume, Call_connect]
                    @ map (\<lambda>n. Call_addCommand (Command2 CLEAR_ROOM (projr (encode n))))
                        (takeWhile encodable names) @ [Call_disconnect],
           client = Some \<lparr>host = arg_host a, port = arg_port a, terminate = False\<rparr>,
           is_done = False\<rparr>)"
    using assms(2) batch_run [OF assms(1), of "a\<lparr>command := ''clear'', name := names\<rparr>"
        "\<lambda>d. Call_addCommand (Command2 CLEAR_ROOM d)" names]
    by (simp add: process_room_command_def room_body_def room_ops_as_calls)
  have l: "process_room_command w (a\<lparr>command := ''clients'', name := names\<rparr>) =
         (if list_all encodable names then Inr ()
          else Inl (Exn UnicodeEncodeError [''utf-8'', ''surrogates not allowed'']),
          \<lparr>trace = [Client_init (arg_host a) (arg_port a), CommandFormatter_new,
                     Thread_start_consume, Call_connect]
                    @ map (\<lambda>n. Call_addCommand (Command2 LIST_ROOM_CLIENTS (projr (encode n))))
                        (takeWhile encodable names) @ [Call_disconnect],
           client = Some \<lparr>host = arg_host a, port = arg_port a, terminate = False\<rparr>,
           is_done = False\<rparr>)"
    using assms(2) batch_run [OF assms(1), of "a\<lparr>command := ''clients'', name := names\<rparr>"
        "\<lambda>d. Call_addCommand (Command2 LIST_ROOM_CLIENTS d)" names]
    by (simp add: process_room_command_def room_body_def room_ops_as_calls)
  have r: "posted (trace (snd (process_room_command w (a\<lparr>command := ''list''\<rparr>))))
           = [\<lparr>type = LIST_ROOMS, data = []\<rparr>]"
    using single_run [OF assms(1), of "a\<lparr>command := ''list''\<rparr>"
        "Call_addCommand (Command1 LIST_ROOMS)"]
    by (simp add: process_room_command_def room_body_def listRooms_def post_command_def
        Command1_def)
  have k: "posted (trace (snd (process_client_command w (a\<lparr>command := ''list''\<rparr>))))
           = [\<lparr>type = LIST_CLIENTS, data = []\<rparr>]"
    using single_run [OF assms(1), of "a\<lparr>command := ''list''\<rparr>"
        "Call_addCommand (Command1 LIST_CLIENTS)"]
    by (simp add: process_client_command_def client_body_def listClients_def post_command_def
        Command1_def)
  have g: "posted (trace (snd (listAllClients w s)))
           = posted (trace s) @ [\<lparr>type = LIST_ALL_CLIENTS, data = []\<rparr>]"
    using assms(1)
    by (simp add: listAllClients_def post_command_def call_def Command1_def posted_append)
  show ?thesis
    by (simp add: d c l r k g posted_append posted_map_addCommand Command2_def)
qed

text \<open>Deleting the rooms \<^verbatim>\<open>a\<close> and \<^verbatim>\<open>b\<close> on a transport that never raises.\<close>

theorem batch_posts_witness:
  "posted (trace (snd (process_room_command quiet_world
      (local_args\<lparr>command := ''delete'', name := [''a'', ''b'']\<rparr>))))
     = [\<lparr>type = DELETE_ROOM, data = ''a''\<rparr>, \<lparr>type = DELETE_ROOM, data = ''b''\<rparr>]
 \<and> fst (process_room_command quiet_world
      (local_args\<lparr>command := ''delete'', name := [''a'', ''b'']\<rparr>)) = Inr ()"
  using batch_posts_one_command_per_encodable_name
    [of quiet_world "[''a'', ''b'']" local_args init_state]
  by (simp add: quiet_world_def encode_def encodable_def lead_byte_def)

text \<open>
  The second of three names is the byte \<^verbatim>\<open>0xFF\<close> of the command line, a lone surrogate
  in Python: only the first name is posted, and the function raises.
\<close>

theorem name_that_cannot_be_encoded_stops_the_batch:
  "posted (trace (snd (process_room_command quiet_world
      (local_args\<lparr>command := ''delete'', name := [''a'', [CHR 0xFF], ''b'']\<rparr>))))
     = [\<lparr>type = DELETE_ROOM, data = ''a''\<rparr>]
 \<and> fst (process_room_command quiet_world
      (local_args\<lparr>command := ''delete'', name := [''a'', [CHR 0xFF], ''b'']\<rparr>))
     = Inl (Exn UnicodeEncodeError [''utf-8'', ''surrogates not allowed''])"
proof -
  have q: "\<forall>h ev. raises quiet_world h ev = None" by (simp add: quiet_world_def)
  have e: "encodable ''a''" "\<not> encodable [CHR 0xFF]"
    by (simp_all add: encodable_def lead_byte_def)
  show ?thesis
    using batch_run [OF q, of "local_args\<lparr>command := ''delete'', name := [''a'', [CHR 0xFF], ''b'']\<rparr>"
        "\<lambda>d. Call_addCommand (Command2 DELETE_ROOM d)" "[''a'', [CHR 0xFF], ''b'']"] e
    by (simp add: process_room_command_def room_body_def room_ops_as_calls encode_def
        Command2_def)
qed

text \<open>
  Claim C10. With an empty list of names, \<^verbatim>\<open>delete\<close>, \<^verbatim>\<open>clear\<close> and \<^verbatim>\<open>clients\<close> only
  print that one or more room names were expected: no client is constructed, nothing is
  connected, nothing is posted, and the function returns normally, whatever the world.
\<close>

theorem empty_name_list_is_no_op:
  "process_room_command w (a\<lparr>command := ''delete'', name := []\<rparr>)
     = (Inr (), \<lparr>trace = [Print Out_expected_names], client = None, is_done = False\<rparr>)
 \<and> process_room_command w (a\<lparr>command := ''clear'', name := []\<rparr>)
     = (Inr (), \<lparr>trace = [Print Out_expected_names], client = None, is_done = False\<rparr>)
 \<and> process_room_command w (a\<lparr>command := ''clients'', name := []\<rparr>)
     = (Inr (), \<lparr>trace = [Print Out_expected_names], client = None, is_done = False\<rparr>)"
  by (simp add: process_room_command_def room_body_def try_finally_def try_except_def emit_def
      disconnect_if_client_def init_state_def ret_def)

lemma tripleI:
  "(\<And>s r s'. P s \<Longrightarrow> m s = (r, s') \<Longrightarrow> (case r of Inr x \<Rightarrow> Q s' | Inl e \<Rightarrow> E s')) \<Longrightarrow> triple P m Q E"
  unfolding triple_def by blast

lemma tripleD:
  "triple P m Q E \<Longrightarrow> P s \<Longrightarrow> m s = (r, s') \<Longrightarrow> (case r of Inr x \<Rightarrow> Q s' | Inl e \<Rightarrow> E s')"
  unfolding triple_def by blast

lemma triple_weaken:
  assumes t: "triple P m Q E" and q: "\<And>s. Q s \<Longrightarrow> Q' s" and e: "\<And>s. E s \<Longrightarrow> E' s"
  shows "triple P m Q' E'"
proof (rule tripleI)
  fix s r s' assume "P s" "m s = (r, s')"
  from tripleD [OF t this] show "case r of Inr x \<Rightarrow> Q' s' | Inl e \<Rightarrow> E' s'"
    using q e by (cases r) simp_all
qed

lemma triple_ret: "triple P (ret x) P E"
  by (rule tripleI) (auto simp: ret_def)

lemma triple_call:
  assumes "\<And>s. P s \<Longrightarrow> Q (s\<lparr>trace := trace s @ [ev]\<rparr>)"
  shows "triple P (call w ev) Q Q"
proof (rule tripleI)
  fix s r s' assume p: "P s" and run: "call w ev s = (r, s')"
  from run have "s' = s\<lparr>trace := trace s @ [ev]\<rparr>"
    by (auto simp: call_def split: option.splits)
  with assms [OF p] show "case r of Inr x \<Rightarrow> Q s' | Inl e \<Rightarrow> Q s'"
    by (cases r) simp_all
qed

lemma triple_emit:
  assumes "\<And>s. P s \<Longrightarrow> Q (s\<lparr>trace := trace s @ [ev]\<rparr>)"
  shows "triple P (emit ev) Q E"
  by (rule tripleI) (auto simp: emit_def assms)

lemma triple_bnd:
  assumes m: "triple P m Q E" and f: "\<And>x. triple Q (f x) R E"
  shows "triple P (bnd m f) R E"
proof (rule tripleI)
  fix s r s' assume p: "P s" and run: "bnd m f s = (r, s')"
  obtain r1 s1 where ms: "m s = (r1, s1)" by (cases "m s")
  show "case r of Inr x \<Rightarrow> R s' | Inl e \<Rightarrow> E s'"
  proof (cases r1)
    case (Inl e)
    with run ms have "r = Inl e" "s' = s1" by (simp_all add: bnd_def)
    with tripleD [OF m p ms] Inl show ?thesis by simp
  next
    case (Inr x)
    with run ms have fx: "f x s1 = (r, s')" by (simp add: bnd_def)
    from tripleD [OF m p ms] Inr have "Q s1" by simp
    from tripleD [OF f this fx] show ?thesis .
  qed
qed

lemma triple_thn: "triple P m Q E \<Longrightarrow> triple Q n R E \<Longrightarrow> triple P (thn m n) R E"
  by (simp add: thn_def triple_bnd)

lemma triple_for_each:
  assumes f: "\<And>x. triple P (f x) P E"
  shows "triple P (for_each f xs) P E"
proof (induction xs)
  case Nil
  show ?case by (simp add: triple_ret)
next
  case (Cons x xs)
  show ?case using triple_thn [OF f [of x] Cons.IH] by simp
qed

lemma triple_try_except:
  assumes m: "triple P m Q E" and h: "\<And>e k. h e = Some k \<Longrightarrow> triple E k Q E"
  shows "triple P (try_except m h) Q E"
proof (rule tripleI)
  fix s r s' assume p: "P s" and run: "try_except m h s = (r, s')"
  obtain r1 s1 where ms: "m s = (r1, s1)" by (cases "m s")
  show "case r of Inr x \<Rightarrow> Q s' | Inl e \<Rightarrow> E s'"
  proof (cases r1)
    case (Inr x)
    with run ms have "r = Inr x" "s' = s1" by (simp_all add: try_except_def)
    with tripleD [OF m p ms] Inr show ?thesis by simp
  next
    case (Inl e)
    from tripleD [OF m p ms] Inl have e1: "E s1" by simp
    show ?thesis
    proof (cases "h e")
      case None
      with Inl run ms have "r = Inl e" "s' = s1" by (simp_all add: try_except_def)
      with e1 show ?thesis by simp
    next
      case (Some k)
      with Inl run ms have "k s1 = (r, s')" by (simp add: try_except_def)
      from tripleD [OF h [OF Some] e1 this] show ?thesis .
    qed
  qed
qed

lemma triple_try_finally:
  assumes m: "triple P m Q Q" and f: "triple Q fin R R"
  shows "triple P (try_finally m fin) R R"
proof (rule tripleI)
  fix s r s' assume p: "P s" and run: "try_finally m fin s = (r, s')"
  obtain r1 s1 where ms: "m s = (r1, s1)" by (cases "m s")
  obtain r2 s2 where fs: "fin s1 = (r2, s2)" by (cases "fin s1")
  from tripleD [OF m p ms] have "Q s1" by (cases r1) simp_all
  from tripleD [OF f this fs] have "R s2" by (cases r2) simp_all
  moreover from run ms fs have "s' = s2" by (cases r2) (simp_all add: try_finally_def)
  ultimately show "case r of Inr x \<Rightarrow> R s' | Inl e \<Rightarrow> R s'" by (cases r) simp_all
qed

lemma triple_log_ServerError:
  assumes "\<And>s ev. P s \<Longrightarrow> P (s\<lparr>trace := trace s @ [Logging_error ev]\<rparr>)"
  shows "log_ServerError e = Some k \<Longrightarrow> triple P k P P"
  by (auto simp: log_ServerError_def assms intro: triple_emit split: if_splits)

lemma CliClient_init_cases:
  assumes "CliClient_init w a s = (r, s')"
  shows "(\<exists>e. r = Inl e \<and> client s' = client s
            \<and> (trace s' = trace s @ [Client_init (arg_host a) (arg_port a)]
             \<or> trace s' = trace s @ [Client_init (arg_host a) (arg_port a), CommandFormatter_new]
             \<or> trace s' = trace s @ [Client_init (arg_host a) (arg_port a), CommandFormatter_new,
                                      Thread_start_consume]))
       \<or> (r = Inr \<lparr>host = arg_host a, port = arg_port a, terminate = False\<rparr> \<and> client s' = client s
            \<and> trace s' = trace s @ [Client_init (arg_host a) (arg_port a), CommandFormatter_new,
                                      Thread_start_consume])"
proof (cases "raises w (trace s) (Client_init (arg_host a) (arg_port a))")
  case (Some e)
  with assms show ?thesis
    by (auto simp: CliClient_init_def thn_def bnd_def call_def)
next
  case n1: None
  show ?thesis
  proof (cases "raises w (trace s @ [Client_init (arg_host a) (arg_port a)]) CommandFormatter_new")
    case (Some e)
    with n1 assms show ?thesis
      by (auto simp: CliClient_init_def thn_def bnd_def call_def)
  next
    case n2: None
    show ?thesis
    proof (cases "raises w (trace s @ [Client_init (arg_host a) (arg_port a),
              CommandFormatter_new]) Thread_start_consume")
      case (Some e)
      with n1 n2 assms show ?thesis
        by (auto simp: CliClient_init_def thn_def bnd_def call_def)
    next
      case None
      with n1 n2 assms show ?thesis
        by (auto simp: CliClient_init_def thn_def bnd_def call_def ret_def)
    qed
  qed
qed

lemma connect_after_start_snoc:
  "connect_after_start b (es @ [e]) =
     (connect_after_start b es \<and> (e = Call_connect \<longrightarrow> b \<or> Thread_start_consume \<in> set es))"
  by (induction b es rule: connect_after_start.induct) (cases e; auto)+

lemma started_snoc: "started s \<Longrightarrow> started (s\<lparr>trace := trace s @ [ev]\<rparr>)"
  by (simp add: started_def)

lemma ordered_snoc: "ordered s \<Longrightarrow> ev \<noteq> Call_connect \<Longrightarrow> ordered (s\<lparr>trace := trace s @ [ev]\<rparr>)"
  by (simp add: ordered_def connect_after_start_snoc)

lemma running_snoc: "running s \<Longrightarrow> running (s\<lparr>trace := trace s @ [ev]\<rparr>)"
  by (simp add: running_def connect_after_start_snoc)

lemma running_ordered: "running s \<Longrightarrow> ordered s"
  by (simp add: running_def ordered_def)

lemma init_three:
  "xs @ [a, b, c] = ((xs @ [a]) @ [b]) @ [c]" "xs @ [a, b] = (xs @ [a]) @ [b]"
  by simp_all

lemma triple_new_client_started: "triple started (new_client w a) started started"
proof (rule tripleI)
  fix s r s' assume st: "started s" and run: "new_client w a s = (r, s')"
  obtain r1 s1 where i: "CliClient_init w a s = (r1, s1)" by (cases "CliClient_init w a s")
  from CliClient_init_cases [OF i] st run i
  have "started s'"
    by (cases r1) (auto simp: new_client_def bnd_def started_def)
  then show "case r of Inr x \<Rightarrow> started s' | Inl e \<Rightarrow> started s'" by (cases r) simp_all
qed

lemma triple_new_client_ordered: "triple ordered (new_client w a) running ordered"
proof (rule tripleI)
  fix s r s' assume st: "ordered s" and run: "new_client w a s = (r, s')"
  obtain r1 s1 where i: "CliClient_init w a s = (r1, s1)" by (cases "CliClient_init w a s")
  show "case r of Inr x \<Rightarrow> running s' | Inl e \<Rightarrow> ordered s'"
  proof (cases r1)
    case (Inl e)
    with run i have "r = Inl e" "s' = s1" by (simp_all add: new_client_def bnd_def)
    moreover from CliClient_init_cases [OF i] Inl st have "ordered s1"
      unfolding ordered_def
      by (elim disjE exE conjE) (simp_all add: init_three connect_after_start_snoc del: append_assoc)
    ultimately show ?thesis by simp
  next
    case (Inr c)
    with run i have "r = Inr ()" "trace s' = trace s1" by (auto simp: new_client_def bnd_def)
    moreover from CliClient_init_cases [OF i] Inr st have "running s1"
      unfolding ordered_def running_def
      by (elim disjE exE conjE) (simp_all add: init_three connect_after_start_snoc del: append_assoc)
    ultimately show ?thesis by (simp add: running_def)
  qed
qed

lemma triple_call_started: "triple started (call w ev) started started"
  by (rule triple_call) (rule started_snoc)

lemma triple_call_running: "triple running (call w ev) running running"
  by (rule triple_call) (rule running_snoc)

lemma triple_session_started:
  assumes "triple started rest started started"
  shows "triple started (thn (new_client w a) (thn (call w Call_connect) rest)) started started"
  by (rule triple_thn [OF triple_new_client_started triple_thn [OF triple_call_started assms]])

lemma triple_session_ordered:
  assumes "triple running rest running running"
  shows "triple ordered (thn (new_client w a) (thn (call w Call_connect) rest)) ordered ordered"
proof -
  have "triple running (thn (call w Call_connect) rest) running running"
    by (rule triple_thn [OF triple_call_running assms])
  then have "triple running (thn (call w Call_connect) rest) running ordered"
    by (rule triple_weaken) (simp_all add: running_ordered)
  with triple_new_client_ordered
  have "triple ordered (thn (new_client w a) (thn (call w Call_connect) rest)) running ordered"
    by (rule triple_thn)
  then show ?thesis by (rule triple_weaken) (simp_all add: running_ordered)
qed

lemma triple_lift: "triple P (lift r) P P"
  by (rule tripleI) (auto simp: lift_def split: sum.splits)

lemma triple_encoded:
  assumes "\<And>d. triple P (call w (g d)) P P"
  shows "triple P (bnd (lift (encode n)) (\<lambda>d. call w (g d))) P P"
  by (rule triple_bnd [OF triple_lift assms])

lemma triple_ops_started:
  "triple started (listRooms w) started started"
  "triple started (listClients w) started started"
  "triple started (for_each (deleteRoom w) ns) started started"
  "triple started (for_each (clearRoom w) ns) started started"
  "triple started (for_each (listRoomClients w) ns) started started"
  by (simp_all add: listRooms_def listClients_def room_ops_as_calls post_command_def
      triple_call_started triple_for_each triple_encoded)

lemma triple_ops_running:
  "triple running (listRooms w) running running"
  "triple running (listClients w) running running"
  "triple running (for_each (deleteRoom w) ns) running running"
  "triple running (for_each (clearRoom w) ns) running running"
  "triple running (for_each (listRoomClients w) ns) running running"
  by (simp_all add: listRooms_def listClients_def room_ops_as_calls post_command_def
      triple_call_running triple_for_each triple_encoded)

lemma triple_room_body_started: "triple started (room_body w a) started started"
  by (simp add: room_body_def triple_session_started triple_ops_started triple_ret
      triple_emit started_snoc)

lemma triple_client_body_started: "triple started (client_body w a) started started"
  by (simp add: client_body_def triple_session_started triple_ops_started triple_ret)

lemma triple_room_body_ordered: "triple ordered (room_body w a) ordered ordered"
  by (simp add: room_body_def triple_session_ordered triple_ops_running triple_ret
      triple_emit ordered_snoc)

lemma triple_client_body_ordered: "triple ordered (client_body w a) ordered ordered"
  by (simp add: client_body_def triple_session_ordered triple_ops_running triple_ret)

lemma triple_disconnect_if_client_started:
  "triple started (disconnect_if_client w) started started"
proof (rule tripleI)
  fix s r s' assume st: "started s" and run: "disconnect_if_client w s = (r, s')"
  have "started s'"
  proof (cases "client s")
    case None
    with run st show ?thesis by (simp add: disconnect_if_client_def ret_def)
  next
    case (Some c)
    with run have "call w Call_disconnect s = (r, s')" by (simp add: disconnect_if_client_def)
    from tripleD [OF triple_call_started st this] show ?thesis by (cases r) simp_all
  qed
  then show "case r of Inr x \<Rightarrow> started s' | Inl e \<Rightarrow> started s'" by (cases r) simp_all
qed

lemma triple_disconnect_if_client_ordered:
  "triple ordered (disconnect_if_client w) ordered ordered"
proof (rule tripleI)
  fix s r s' assume st: "ordered s" and run: "disconnect_if_client w s = (r, s')"
  have "ordered s'"
  proof (cases "client s")
    case None
    with run st show ?thesis by (simp add: disconnect_if_client_def ret_def)
  next
    case (Some c)
    with run have "s' = s\<lparr>trace := trace s @ [Call_disconnect]\<rparr>"
      by (auto simp: disconnect_if_client_def call_def split: option.splits)
    with st show ?thesis by (simp add: ordered_snoc)
  qed
  then show "case r of Inr x \<Rightarrow> ordered s' | Inl e \<Rightarrow> ordered s'" by (cases r) simp_all
qed

lemma triple_guarded_ordered:
  assumes "triple ordered body ordered ordered"
  shows "ordered (snd (try_finally (try_except body log_ServerError) (disconnect_if_client w) init_state))"
proof -
  have h: "\<And>e k. log_ServerError e = Some k \<Longrightarrow> triple ordered k ordered ordered"
    by (rule triple_log_ServerError) (simp add: ordered_snoc)
  have t: "triple ordered (try_finally (try_except body log_ServerError) (disconnect_if_client w))
             ordered ordered"
    by (rule triple_try_finally [OF triple_try_except [OF assms h]
          triple_disconnect_if_client_ordered])
  obtain r s' where run:
    "try_finally (try_except body log_ServerError) (disconnect_if_client w) init_state = (r, s')"
    by (cases "try_finally (try_except body log_ServerError) (disconnect_if_client w) init_state")
  have "ordered init_state" by (simp add: ordered_def init_state_def)
  from tripleD [OF t this run] have "ordered s'" by (cases r) simp_all
  with run show ?thesis by simp
qed

lemma finally_disconnects:
  assumes k: "triple started m started started"
    and c: "client (snd (try_finally m (disconnect_if_client w) init_state)) \<noteq> None"
  shows "\<exists>pre. trace (snd (try_finally m (disconnect_if_client w) init_state)) = pre @ [Call_disconnect]
           \<and> Thread_start_consume \<in> set pre"
proof -
  obtain r s1 where m: "m init_state = (r, s1)" by (cases "m init_state")
  have "started init_state" by (simp add: started_def init_state_def)
  from tripleD [OF k this m] have st: "started s1" by (cases r) simp_all
  show ?thesis
  proof (cases "client s1")
    case None
    then have "try_finally m (disconnect_if_client w) init_state = (r, s1)"
      using m by (simp add: try_finally_def disconnect_if_client_def ret_def)
    with c None show ?thesis by simp
  next
    case (Some cl)
    then have "trace (snd (try_finally m (disconnect_if_client w) init_state))
                 = trace s1 @ [Call_disconnect]"
      using m by (auto simp: try_finally_def disconnect_if_client_def call_def split: option.splits)
    moreover have "Thread_start_consume \<in> set (trace s1)"
      using st Some by (simp add: started_def)
    ultimately show ?thesis by blast
  qed
qed

text \<open>
  Claim C9. In every run of \<^verbatim>\<open>process_room_command\<close> and of
  \<^verbatim>\<open>process_client_command\<close> in which a client was constructed (the variable
  \<^verbatim>\<open>client\<close> was assigned, which happens after the constructor started the thread),
  the last thing the function does is to call \<^verbatim>\<open>disconnect\<close> on it; this holds on
  every path, whatever raises.
\<close>

theorem constructed_client_always_disconnected:
  "(client (snd (process_room_command w a)) \<noteq> None \<longrightarrow>
      (\<exists>pre. trace (snd (process_room_command w a)) = pre @ [Call_disconnect]
             \<and> Thread_start_consume \<in> set pre))
 \<and> (client (snd (process_client_command w a)) \<noteq> None \<longrightarrow>
      (\<exists>pre. trace (snd (process_client_command w a)) = pre @ [Call_disconnect]
             \<and> Thread_start_consume \<in> set pre))"
proof -
  have h: "\<And>e k. log_ServerError e = Some k \<Longrightarrow> triple started k started started"
    by (rule triple_log_ServerError) (simp add: started_snoc)
  have r: "triple started (try_except (room_body w a) log_ServerError) started started"
    by (rule triple_try_except [OF triple_room_body_started h])
  have c: "triple started (try_except (client_body w a) log_ServerError) started started"
    by (rule triple_try_except [OF triple_client_body_started h])
  show ?thesis
    unfolding process_room_command_def process_client_command_def
    using finally_disconnects [OF r] finally_disconnects [OF c] by blast
qed

text \<open>The path where \<^verbatim>\<open>connect\<close> raises a \<^verbatim>\<open>ServerError\<close>, which is logged.\<close>

lemma refusing_room_run:
  "process_room_command refusing_world (local_args\<lparr>command := ''delete'', name := [''a'']\<rparr>) =
     (Inr (), \<lparr>trace = [Client_init ''localhost'' 12800, CommandFormatter_new, Thread_start_consume,
                         Call_connect, Logging_error (Exn ServerError [''refused'']), Call_disconnect],
               client = Some \<lparr>host = ''localhost'', port = 12800, terminate = False\<rparr>,
               is_done = False\<rparr>)"
  by (simp add: process_room_command_def room_body_def try_finally_def try_except_def
      thn_def bnd_def new_client_def CliClient_init_def call_def ret_def emit_def
      log_ServerError_def is_ServerError_def disconnect_if_client_def init_state_def
      refusing_world_def local_args_def)

lemma refusing_client_run:
  "process_client_command refusing_world local_args =
     (Inr (), \<lparr>trace = [Client_init ''localhost'' 12800, CommandFormatter_new, Thread_start_consume,
                         Call_connect, Logging_error (Exn ServerError [''refused'']), Call_disconnect],
               client = Some \<lparr>host = ''localhost'', port = 12800, terminate = False\<rparr>,
               is_done = False\<rparr>)"
  by (simp add: process_client_command_def client_body_def try_finally_def try_except_def
      thn_def bnd_def new_client_def CliClient_init_def call_def ret_def emit_def
      log_ServerError_def is_ServerError_def disconnect_if_client_def init_state_def
      refusing_world_def local_args_def)

theorem constructed_client_always_disconnected_witness:
  "last (trace (snd (process_room_command refusing_world
           (local_args\<lparr>command := ''delete'', name := [''a'']\<rparr>)))) = Call_disconnect
 \<and> last (trace (snd (process_client_command refusing_world local_args))) = Call_disconnect"
proof -
  have "client (snd (process_room_command refusing_world
           (local_args\<lparr>command := ''delete'', name := [''a'']\<rparr>))) \<noteq> None"
    by (simp add: refusing_room_run)
  moreover have "client (snd (process_client_command refusing_world local_args)) \<noteq> None"
    by (simp add: refusing_client_run)
  ultimately show ?thesis
    using constructed_client_always_disconnected
      [of refusing_world "local_args\<lparr>command := ''delete'', name := [''a'']\<rparr>"]
      constructed_client_always_disconnected [of refusing_world local_args]
    by auto
qed

text \<open>
  The constructor alone, with no \<^verbatim>\<open>connect\<close> invoked, has already started the consumer
  thread: the task runs before \<^verbatim>\<open>connect\<close>.
\<close>

theorem task_running_before_connect:
  "Thread_start_consume \<in> set (trace (snd (CliClient_init quiet_world local_args init_state)))
 \<and> Call_connect \<notin> set (trace (snd (CliClient_init quiet_world local_args init_state)))"
  by (simp add: CliClient_init_def thn_def bnd_def call_def ret_def quiet_world_def
      local_args_def init_state_def)

text \<open>
  Claim C3, amended. Starting the background consumption task is a side effect of
  constructing the \<^verbatim>\<open>CliClient\<close>: a constructor that returns has started the thread
  (after initialising the base class and the formatter, with \<^verbatim>\<open>terminate\<close> false), and
  in the room and client commands every \<^verbatim>\<open>connect\<close> comes after that start.
\<close>

theorem consumer_started_by_constructor:
  "(CliClient_init w a s = (Inr c, s') \<longrightarrow>
      trace s' = trace s @ [Client_init (arg_host a) (arg_port a), CommandFormatter_new,
                            Thread_start_consume]
    \<and> terminate c = False)
 \<and> connect_after_start False (trace (snd (process_room_command w a)))
 \<and> connect_after_start False (trace (snd (process_client_command w a)))"
proof -
  have "CliClient_init w a s = (Inr c, s') \<longrightarrow>
      trace s' = trace s @ [Client_init (arg_host a) (arg_port a), CommandFormatter_new,
                            Thread_start_consume]
    \<and> terminate c = False"
    using CliClient_init_cases [of w a s "Inr c" s'] by auto
  moreover have "connect_after_start False (trace (snd (process_room_command w a)))"
    using triple_guarded_ordered [OF triple_room_body_ordered]
    by (simp add: process_room_command_def ordered_def)
  moreover have "connect_after_start False (trace (snd (process_client_command w a)))"
    using triple_guarded_ordered [OF triple_client_body_ordered]
    by (simp add: process_client_command_def ordered_def)
  ultimately show ?thesis by blast
qed

text \<open>The constructor on a transport that never raises.\<close>

theorem consumer_started_by_constructor_witness:
  "trace (snd (CliClient_init quiet_world local_args init_state))
     = [Client_init ''localhost'' 12800, CommandFormatter_new, Thread_start_consume]"
proof -
  have "CliClient_init quiet_world local_args init_state
          = (Inr \<lparr>host = ''localhost'', port = 12800, terminate = False\<rparr>,
             snd (CliClient_init quiet_world local_args init_state))"
    by (simp add: CliClient_init_def thn_def bnd_def call_def ret_def quiet_world_def
        local_args_def init_state_def)
  with consumer_started_by_constructor [of quiet_world local_args init_state
      "\<lparr>host = ''localhost'', port = 12800, terminate = False\<rparr>"
      "snd (CliClient_init quiet_world local_args init_state)"]
  show ?thesis by (simp add: local_args_def init_state_def)
qed

section \<open>Properties of the background consumption loop\<close>

lemma loop_step_self: "self (loop_step c) = self c"
  by (simp add: loop_step_def split: pc.split list.split option.split)

lemma loop_step_pc:
  "pc (loop_step c) =
     (case pc c of
        At_guard \<Rightarrow> if terminate (self c) then Exited else At_consume
      | At_consume \<Rightarrow> At_received (case inbound c of [] \<Rightarrow> None | r # rs \<Rightarrow> r)
      | At_received r \<Rightarrow> At_guard
      | Exited \<Rightarrow> Exited)"
  by (simp add: loop_step_def split: pc.split list.split option.split)

lemma loop_step_events:
  "events (loop_step c) =
     events c @
     (case pc c of
        At_consume \<Rightarrow> [Call_consume_one]
      | At_received None \<Rightarrow> [Time_sleep 100]
      | At_received (Some received) \<Rightarrow>
          (if type received = CONNECTION_LOST then [Call_disconnect] else [])
          @ [Print (Out_formatted received), Print Out_fake_prompt]
      | p \<Rightarrow> [])"
  by (simp add: loop_step_def split: pc.split list.split option.split)


lemma consumes_left_bound: "consumes_left p \<le> 1"
  by (cases p rule: consumes_left.cases) simp_all

lemma sleeps_left_bound: "sleeps_left p \<le> 1"
  by (cases p rule: sleeps_left.cases) simp_all

lemma steps_to_exit_bound: "steps_to_exit p \<le> 3"
  by (cases p) simp_all

lemma tick_step_terminate: "terminate (self c) \<Longrightarrow> terminate (self (tick_step t c))"
  by (cases t) (simp_all add: loop_step_self)

lemma loop_step_consumes:
  "terminate (self c) \<Longrightarrow>
   consume_calls (events (loop_step c)) + consumes_left (pc (loop_step c))
     \<le> consume_calls (events c) + consumes_left (pc c)"
  by (simp add: loop_step_pc loop_step_events consume_calls_def
      split: pc.split option.split)

lemma loop_step_sleeps:
  "terminate (self c) \<Longrightarrow>
   sleeps (events (loop_step c)) + sleeps_left (pc (loop_step c))
     \<le> sleeps (events c) + sleeps_left (pc c)"
  using sleeps_left_bound [of "At_received (case inbound c of [] \<Rightarrow> None | r # rs \<Rightarrow> r)"]
  by (simp add: loop_step_pc loop_step_events sleeps_def split: pc.split option.split)

lemma loop_step_steps:
  "terminate (self c) \<Longrightarrow> steps_to_exit (pc (loop_step c)) = steps_to_exit (pc c) - 1"
  by (simp add: loop_step_pc split: pc.split)

lemma run_consumes:
  "terminate (self c) \<Longrightarrow>
     consume_calls (events (run ts c)) + consumes_left (pc (run ts c))
       \<le> consume_calls (events c) + consumes_left (pc c)"
proof (induction ts arbitrary: c)
  case Nil
  show ?case by simp
next
  case (Cons t ts)
  have t: "terminate (self (tick_step t c))" using Cons.prems by (rule tick_step_terminate)
  have "consume_calls (events (tick_step t c)) + consumes_left (pc (tick_step t c))
          \<le> consume_calls (events c) + consumes_left (pc c)"
    using loop_step_consumes [OF Cons.prems] by (cases t) simp_all
  with Cons.IH [OF t] show ?case by simp
qed

lemma run_sleeps:
  "terminate (self c) \<Longrightarrow>
     sleeps (events (run ts c)) + sleeps_left (pc (run ts c))
       \<le> sleeps (events c) + sleeps_left (pc c)"
proof (induction ts arbitrary: c)
  case Nil
  show ?case by simp
next
  case (Cons t ts)
  have t: "terminate (self (tick_step t c))" using Cons.prems by (rule tick_step_terminate)
  have "sleeps (events (tick_step t c)) + sleeps_left (pc (tick_step t c))
          \<le> sleeps (events c) + sleeps_left (pc c)"
    using loop_step_sleeps [OF Cons.prems] by (cases t) simp_all
  with Cons.IH [OF t] show ?case by simp
qed

lemma run_exits:
  "terminate (self c) \<Longrightarrow> steps_to_exit (pc c) \<le> loop_ticks ts \<Longrightarrow> pc (run ts c) = Exited"
proof (induction ts arbitrary: c)
  case Nil
  then show ?case by (cases "pc c" rule: pc.exhaust) (simp_all add: loop_ticks_def)
next
  case (Cons t ts)
  show ?case
  proof (cases t)
    case Loop_tick
    have "terminate (self (loop_step c))" using Cons.prems(1) by (simp add: loop_step_self)
    moreover have "steps_to_exit (pc (loop_step c)) \<le> loop_ticks ts"
      using Cons.prems(2) Loop_tick loop_step_steps [OF Cons.prems(1)]
      by (simp add: loop_ticks_def)
    ultimately show ?thesis using Cons.IH [of "loop_step c"] Loop_tick by simp
  next
    case Main_sets_terminate
    have "steps_to_exit (pc (tick_step t c)) \<le> loop_ticks ts"
      using Cons.prems(2) Main_sets_terminate by (simp add: loop_ticks_def)
    moreover have "terminate (self (tick_step t c))"
      using Cons.prems(1) by (rule tick_step_terminate)
    ultimately show ?thesis using Cons.IH [of "tick_step t c"] by simp
  qed
qed



text \<open>
  Claim C8. From any point of any execution at which \<^verbatim>\<open>terminate\<close> is true, whatever the
  schedule, the loop calls \<^verbatim>\<open>consume_one\<close> at most once more and sleeps at most once
  more (the rest of the iteration it is in), and after three steps of its own at the
  latest it has left the loop.
\<close>

theorem terminate_observed_within_one_iteration:
  assumes "terminate (self c)"
  shows "consume_calls (events (run ts c)) \<le> consume_calls (events c) + 1
       \<and> sleeps (events (run ts c)) \<le> sleeps (events c) + 1
       \<and> (3 \<le> loop_ticks ts \<longrightarrow> pc (run ts c) = Exited)"
proof -
  have "consume_calls (events (run ts c)) \<le> consume_calls (events c) + 1"
    using run_consumes [OF assms, of ts] consumes_left_bound [of "pc c"] by linarith
  moreover have "sleeps (events (run ts c)) \<le> sleeps (events c) + 1"
    using run_sleeps [OF assms, of ts] sleeps_left_bound [of "pc c"] by linarith
  moreover have "3 \<le> loop_ticks ts \<longrightarrow> pc (run ts c) = Exited"
    using run_exits [OF assms, of ts] steps_to_exit_bound [of "pc c"] by simp
  ultimately show ?thesis by blast
qed

lemma run_never_exits:
  "\<not> terminate (self c) \<Longrightarrow> pc c \<noteq> Exited \<Longrightarrow> Main_sets_terminate \<notin> set ts \<Longrightarrow>
   pc (run ts c) \<noteq> Exited"
proof (induction ts arbitrary: c)
  case Nil
  then show ?case by simp
next
  case (Cons t ts)
  from Cons.prems(3) have t: "t = Loop_tick" by (cases t) simp_all
  have "pc (loop_step c) \<noteq> Exited"
    using Cons.prems(1,2) by (simp add: loop_step_pc split: pc.split)
  moreover have "\<not> terminate (self (loop_step c))"
    using Cons.prems(1) by (simp add: loop_step_self)
  ultimately show ?case using Cons.IH [of "loop_step c"] Cons.prems(3) t by simp
qed

text \<open>The flag is set while the loop is about to poll: it polls once, sleeps and exits.\<close>

theorem terminate_observed_witness:
  "pc (run [Loop_tick, Main_sets_terminate, Loop_tick, Loop_tick, Loop_tick]
         (started_consumer [])) = Exited
 \<and> consume_calls (events (run [Loop_tick, Main_sets_terminate, Loop_tick, Loop_tick, Loop_tick]
         (started_consumer []))) \<le> 1"
proof -
  have t: "terminate (self (run [Loop_tick, Main_sets_terminate] (started_consumer [])))"
    by (simp add: started_consumer_def loop_step_def)
  have e: "events (run [Loop_tick, Main_sets_terminate] (started_consumer [])) = []"
    by (simp add: started_consumer_def loop_step_def)
  from terminate_observed_within_one_iteration [OF t, of "[Loop_tick, Loop_tick, Loop_tick]"] e
  show ?thesis by (simp add: loop_ticks_def consume_calls_def)
qed

text \<open>
  A run that receives \<^verbatim>\<open>CONNECTION_LOST\<close>: the loop disconnects, prints, and polls
  again; it is back at the guard, not exited.
\<close>

theorem polling_continues_after_connection_lost:
  "events (run [Loop_tick, Loop_tick, Loop_tick, Loop_tick, Loop_tick, Loop_tick]
             (started_consumer [Some \<lparr>type = CONNECTION_LOST, data = []\<rparr>]))
     = [Call_consume_one, Call_disconnect,
        Print (Out_formatted \<lparr>type = CONNECTION_LOST, data = []\<rparr>), Print Out_fake_prompt,
        Call_consume_one, Time_sleep 100]
 \<and> pc (run [Loop_tick, Loop_tick, Loop_tick, Loop_tick, Loop_tick, Loop_tick]
             (started_consumer [Some \<lparr>type = CONNECTION_LOST, data = []\<rparr>])) = At_guard"
  by (simp add: started_consumer_def loop_step_def)

text \<open>
  Claim C2, amended. When the loop has received \<^verbatim>\<open>CONNECTION_LOST\<close> it calls
  \<^verbatim>\<open>disconnect\<close> on the client, prints the command and the prompt and returns to the
  guard, with \<^verbatim>\<open>terminate\<close> as it was. It does not exit on connection loss: as long
  as \<^verbatim>\<open>terminate\<close> is false and the main thread does not set it, the loop never exits,
  and a step exits only at the guard with \<^verbatim>\<open>terminate\<close> true.
\<close>

theorem connection_lost_disconnects_and_keeps_polling:
  "(pc c = At_received (Some received) \<and> type received = CONNECTION_LOST \<longrightarrow>
      events (loop_step c)
        = events c @ [Call_disconnect, Print (Out_formatted received), Print Out_fake_prompt]
    \<and> pc (loop_step c) = At_guard \<and> self (loop_step c) = self c)
 \<and> (\<not> terminate (self c) \<and> pc c \<noteq> Exited \<and> Main_sets_terminate \<notin> set ts \<longrightarrow>
      pc (run ts c) \<noteq> Exited)
 \<and> (pc (loop_step c) = Exited) = (pc c = Exited \<or> pc c = At_guard \<and> terminate (self c))"
proof -
  have "pc c = At_received (Some received) \<and> type received = CONNECTION_LOST \<longrightarrow>
      events (loop_step c)
        = events c @ [Call_disconnect, Print (Out_formatted received), Print Out_fake_prompt]
    \<and> pc (loop_step c) = At_guard \<and> self (loop_step c) = self c"
    by (simp add: loop_step_pc loop_step_events loop_step_self)
  moreover have "\<not> terminate (self c) \<and> pc c \<noteq> Exited \<and> Main_sets_terminate \<notin> set ts \<longrightarrow>
      pc (run ts c) \<noteq> Exited"
    using run_never_exits [of c ts] by blast
  moreover have "(pc (loop_step c) = Exited) = (pc c = Exited \<or> pc c = At_guard \<and> terminate (self c))"
    by (simp add: loop_step_pc split: pc.split)
  ultimately show ?thesis by blast
qed

text \<open>The step that handles \<^verbatim>\<open>CONNECTION_LOST\<close>, and four more steps of polling.\<close>

theorem connection_lost_witness:
  "events (loop_step (run [Loop_tick, Loop_tick]
       (started_consumer [Some \<lparr>type = CONNECTION_LOST, data = []\<rparr>])))
     = [Call_consume_one, Call_disconnect,
        Print (Out_formatted \<lparr>type = CONNECTION_LOST, data = []\<rparr>), Print Out_fake_prompt]
 \<and> pc (run [Loop_tick, Loop_tick, Loop_tick, Loop_tick]
       (run [Loop_tick, Loop_tick]
         (started_consumer [Some \<lparr>type = CONNECTION_LOST, data = []\<rparr>]))) \<noteq> Exited"
proof -
  have p: "pc (run [Loop_tick, Loop_tick]
       (started_consumer [Some \<lparr>type = CONNECTION_LOST, data = []\<rparr>]))
        = At_received (Some \<lparr>type = CONNECTION_LOST, data = []\<rparr>)"
    by (simp add: started_consumer_def loop_step_def)
  have t: "\<not> terminate (self (run [Loop_tick, Loop_tick]
       (started_consumer [Some \<lparr>type = CONNECTION_LOST, data = []\<rparr>])))"
    by (simp add: started_consumer_def loop_step_def)
  have e: "events (run [Loop_tick, Loop_tick]
       (started_consumer [Some \<lparr>type = CONNECTION_LOST, data = []\<rparr>])) = [Call_consume_one]"
    by (simp add: started_consumer_def loop_step_def)
  from connection_lost_disconnects_and_keeps_polling
    [of "run [Loop_tick, Loop_tick]
       (started_consumer [Some \<lparr>type = CONNECTION_LOST, data = []\<rparr>])"
     "\<lparr>type = CONNECTION_LOST, data = []\<rparr>" "[Loop_tick, Loop_tick, Loop_tick, Loop_tick]"]
    p t e
  show ?thesis by simp
qed

section \<open>Properties of the interactive loop\<close>

lemma candidates_roster:
  "filter (prefix ''listrooms'') commands = [''listrooms'']"
  "filter (prefix ''listroomclients'') commands = [''listroomclients <roomname>'']"
  "filter (prefix ''listjoinedclients'') commands = [''listjoinedclients'']"
  "filter (prefix ''listallclients'') commands = [''listallclients'']"
  by (simp_all add: commands_def)

lemma first_word_roster:
  "first_word ''listrooms'' = ''listrooms''"
  "first_word ''listroomclients <roomname>'' = ''listroomclients''"
  "first_word ''listjoinedclients'' = ''listjoinedclients''"
  "first_word ''listallclients'' = ''listallclients''"
  by (simp_all add: first_word_def)

lemma not_connected_None:
  "client s = None \<Longrightarrow> not_connected w s = (Inr True, s)"
  by (simp add: not_connected_def)

lemma not_connected_False:
  "client s = Some c \<Longrightarrow> raises w (trace s) Call_isConnected = None \<Longrightarrow>
   \<not> connected_answer w (trace s) \<Longrightarrow>
   not_connected w s = (Inr True, s\<lparr>trace := trace s @ [Call_isConnected]\<rparr>)"
  by (simp add: not_connected_def bnd_def call_def ret_def)

lemma dispatch_rejects:
  assumes cmd: "cmd \<noteq> ''connect''" "cmd \<noteq> ''exit''" "cmd \<noteq> ''help''"
    and nc: "client s = None
           \<or> raises w (trace s) Call_isConnected = None \<and> \<not> connected_answer w (trace s)"
  shows "dispatch w a cmd command_args s =
           (Inl Not_connected,
            s\<lparr>trace := trace s @ (if client s = None then [] else [Call_isConnected])\<rparr>)"
proof (cases "client s")
  case None
  then show ?thesis using cmd
    by (simp add: dispatch_def bnd_def not_connected_None raise_def)
next
  case (Some c)
  with nc have "not_connected w s = (Inr True, s\<lparr>trace := trace s @ [Call_isConnected]\<rparr>)"
    by (simp add: not_connected_False)
  then show ?thesis using cmd Some
    by (simp add: dispatch_def bnd_def raise_def)
qed

lemma iteration_rejects:
  assumes c: "filter (prefix cmd) commands = [entry]" and f: "first_word entry = cmd"
    and cmd: "cmd \<noteq> ''connect''" "cmd \<noteq> ''exit''" "cmd \<noteq> ''help''"
    and nc: "client s = None
           \<or> raises w (trace s @ [Print Out_prompt]) Call_isConnected = None
             \<and> \<not> connected_answer w (trace s @ [Print Out_prompt])"
  shows "interactive_iteration w a (cmd # command_args) s =
           (Inr (), s\<lparr>trace := trace s @ [Print Out_prompt]
                        @ (if client s = None then [] else [Call_isConnected])
                        @ [Print (Out_exception Not_connected)]\<rparr>)"
proof -
  let ?s1 = "s\<lparr>trace := trace s @ [Print Out_prompt]\<rparr>"
  have d: "dispatch w a cmd command_args ?s1 =
           (Inl Not_connected,
            ?s1\<lparr>trace := trace ?s1 @ (if client ?s1 = None then [] else [Call_isConnected])\<rparr>)"
    by (rule dispatch_rejects [OF cmd]) (use nc in simp)
  show ?thesis
    using d
    by (simp add: interactive_iteration_def try_except_def thn_def bnd_def emit_def ret_def
        c f print_exception_def is_Exception_def Not_connected_def)
qed

lemma enqueued_snoc:
  "enqueued w pre (es @ [Call_addCommand c]) =
     enqueued w pre es @ (if raises w (pre @ es) (Call_addCommand c) = None then [c] else [])"
  by (induction w pre es rule: enqueued.induct) simp_all

lemma post_rejected:
  assumes "rejects_when_disconnected w" and "\<not> connected_answer w (trace s)"
  shows "rejected w s (call w (Call_addCommand c) s)"
proof -
  from assms obtain e where e: "raises w (trace s) (Call_addCommand c) = Some e"
    unfolding rejects_when_disconnected_def by blast
  then have "call w (Call_addCommand c) s = (Inl e, s\<lparr>trace := trace s @ [Call_addCommand c]\<rparr>)"
    by (simp add: call_def)
  then show ?thesis using e by (simp add: rejected_def enqueued_snoc)
qed

lemma encoded_post_rejected:
  assumes "rejects_when_disconnected w" and "\<not> connected_answer w (trace s)"
  shows "rejected w s (bnd (lift (encode n)) (\<lambda>d. call w (Call_addCommand (g d))) s)"
proof (cases "encodable n")
  case True
  then have "bnd (lift (encode n)) (\<lambda>d. call w (Call_addCommand (g d))) s
               = call w (Call_addCommand (g n)) s"
    by (simp add: bnd_def lift_def encode_def)
  with post_rejected [OF assms] show ?thesis by simp
next
  case False
  then show ?thesis by (simp add: bnd_def lift_def encode_def rejected_def)
qed

text \<open>
  Claim C1. On a transport that keeps the contract of the spec for \<^verbatim>\<open>addCommand\<close>, each
  of the six room and roster operations invoked on a client for which \<^verbatim>\<open>isConnected\<close>
  is false is rejected: the operation raises, it does not swallow the error, and the
  transport has accepted no command. In the interactive loop the rejection comes before
  the operation, on every transport: a roster command typed while there is no client,
  or while \<^verbatim>\<open>isConnected\<close> answers no, raises the \<^verbatim>\<open>RuntimeError\<close> "Not connected",
  which the loop prints, and no operation is invoked.
\<close>

theorem operations_rejected_when_not_connected:
  "(rejects_when_disconnected w \<and> \<not> connected_answer w (trace s) \<longrightarrow>
      rejected w s (listRooms w s) \<and> rejected w s (deleteRoom w n s)
    \<and> rejected w s (clearRoom w n s) \<and> rejected w s (listRoomClients w n s)
    \<and> rejected w s (listClients w s) \<and> rejected w s (listAllClients w s))
 \<and> ((cmd = ''listrooms'' \<or> cmd = ''listroomclients'' \<or> cmd = ''listjoinedclients''
        \<or> cmd = ''listallclients'')
      \<and> (client s = None
          \<or> raises w (trace s @ [Print Out_prompt]) Call_isConnected = None
            \<and> \<not> connected_answer w (trace s @ [Print Out_prompt])) \<longrightarrow>
      interactive_iteration w a (cmd # command_args) s =
        (Inr (), s\<lparr>trace := trace s @ [Print Out_prompt]
                     @ (if client s = None then [] else [Call_isConnected])
                     @ [Print (Out_exception Not_connected)]\<rparr>))"
proof (intro conjI impI)
  assume a: "rejects_when_disconnected w \<and> \<not> connected_answer w (trace s)"
  then have c: "rejects_when_disconnected w" and d: "\<not> connected_answer w (trace s)"
    by simp_all
  show "rejected w s (listRooms w s)"
    using post_rejected [OF c d] by (simp add: listRooms_def post_command_def)
  show "rejected w s (listClients w s)"
    using post_rejected [OF c d] by (simp add: listClients_def post_command_def)
  show "rejected w s (listAllClients w s)"
    using post_rejected [OF c d] by (simp add: listAllClients_def post_command_def)
  show "rejected w s (deleteRoom w n s)"
    using encoded_post_rejected [OF c d, of n "Command2 DELETE_ROOM"]
    by (simp add: deleteRoom_def post_command_def)
  show "rejected w s (clearRoom w n s)"
    using encoded_post_rejected [OF c d, of n "Command2 CLEAR_ROOM"]
    by (simp add: clearRoom_def post_command_def)
  show "rejected w s (listRoomClients w n s)"
    using encoded_post_rejected [OF c d, of n "Command2 LIST_ROOM_CLIENTS"]
    by (simp add: listRoomClients_def post_command_def)
next
  assume h: "(cmd = ''listrooms'' \<or> cmd = ''listroomclients'' \<or> cmd = ''listjoinedclients''
        \<or> cmd = ''listallclients'')
      \<and> (client s = None
          \<or> raises w (trace s @ [Print Out_prompt]) Call_isConnected = None
            \<and> \<not> connected_answer w (trace s @ [Print Out_prompt]))"
  then have r: "cmd = ''listrooms'' \<or> cmd = ''listroomclients'' \<or> cmd = ''listjoinedclients''
        \<or> cmd = ''listallclients''"
    and nc: "client s = None
          \<or> raises w (trace s @ [Print Out_prompt]) Call_isConnected = None
            \<and> \<not> connected_answer w (trace s @ [Print Out_prompt])"
    by simp_all
  obtain entry where c: "filter (prefix cmd) commands = [entry]" and f: "first_word entry = cmd"
    using r candidates_roster first_word_roster by auto
  have n: "cmd \<noteq> ''connect''" "cmd \<noteq> ''exit''" "cmd \<noteq> ''help''"
    using r by auto
  show "interactive_iteration w a (cmd # command_args) s =
        (Inr (), s\<lparr>trace := trace s @ [Print Out_prompt]
                     @ (if client s = None then [] else [Call_isConnected])
                     @ [Print (Out_exception Not_connected)]\<rparr>)"
    by (rule iteration_rejects [OF c f n nc])
qed

text \<open>
  A client that was never connected, on the transport of the spec: \<^verbatim>\<open>listRooms\<close> and
  \<^verbatim>\<open>deleteRoom\<close> raise the rejection of \<^verbatim>\<open>addCommand\<close>, and \<^verbatim>\<open>listrooms\<close> typed at the
  prompt is answered with "Not connected".
\<close>

theorem operations_rejected_witness:
  "fst (listRooms spec_transport with_client) = Inl (Exn RuntimeError [''not connected''])
 \<and> rejected spec_transport with_client (listRooms spec_transport with_client)
 \<and> rejected spec_transport with_client (deleteRoom spec_transport ''room'' with_client)
 \<and> interactive_iteration spec_transport local_args [''listrooms''] with_client =
     (Inr (), with_client\<lparr>trace := [Print Out_prompt, Call_isConnected,
                                      Print (Out_exception Not_connected)]\<rparr>)"
proof -
  have c: "rejects_when_disconnected spec_transport"
    by (simp add: rejects_when_disconnected_def spec_transport_def)
  have d: "\<not> connected_answer spec_transport (trace with_client)"
    by (simp add: spec_transport_def with_client_def)
  have i: "raises spec_transport (trace with_client @ [Print Out_prompt]) Call_isConnected = None
         \<and> \<not> connected_answer spec_transport (trace with_client @ [Print Out_prompt])"
    by (simp add: spec_transport_def with_client_def)
  have l: "fst (listRooms spec_transport with_client) = Inl (Exn RuntimeError [''not connected''])"
    by (simp add: listRooms_def post_command_def call_def spec_transport_def with_client_def)
  from operations_rejected_when_not_connected
    [where w = spec_transport and s = with_client and n = "''room''" and cmd = "''listrooms''"
       and a = local_args and command_args = "[]"] c d i l
  show ?thesis by (simp add: with_client_def)
qed

text \<open>
  Because of the joined entry of \<^verbatim>\<open>commands\<close>, no entry starts with \<^verbatim>\<open>exit\<close>: typed at
  the prompt it is answered as a command that is not recognised, and the branch that
  sets \<^verbatim>\<open>terminate\<close> is not taken.
\<close>

lemma exit_is_not_recognised:
  "interactive_iteration w a (''exit'' # command_args) s =
     (Inr (), s\<lparr>trace := trace s @ [Print Out_prompt, Print (Out_not_recognised ''exit''),
                                      Print (Out_help commands)]\<rparr>)"
proof -
  have "filter (prefix ''exit'') commands = []"
    by (simp add: commands_def)
  then show ?thesis
    by (simp add: interactive_iteration_def try_except_def thn_def bnd_def emit_def)
qed

section \<open>Properties of the end-to-end verification\<close>

lemma capture_both_calm:
  assumes b: "2 \<le> blenders w" and nr: "\<forall>t ev. t_raises w t ev = None"
  shows "capture_both w t =
     (Inr (sort_log (captured w ''mixer_grab_sender''), sort_log (captured w ''mixer_grab_receiver'')),
      t @ [Connect_and_join_mixer Sender ''mixer_grab_sender'' True (experimental_sync w),
           Sleep_ms 1000, Disconnect_mixer Sender, Grabber_new Sender,
           Grab (server_host w) (server_port w) ''mixer_grab_sender'', Grabber_sort Sender,
           Connect_and_join_mixer Receiver ''mixer_grab_receiver'' True (experimental_sync w),
           Sleep_ms 1000, Disconnect_mixer Receiver, Grabber_new Receiver,
           Grab (server_host w) (server_port w) ''mixer_grab_receiver'', Grabber_sort Receiver])"
  using b nr
  by (simp add: capture_both_def thn_def bnd_def try_except_def grab_def on_blender_def
      tcall_def ret_def)

lemma assert_matches_calm:
  assumes "2 \<le> blenders w" and "\<forall>t ev. t_raises w t ev = None"
  shows "assert_matches w =
     (if compare (sort_log (captured w ''mixer_grab_sender''))
           (sort_log (captured w ''mixer_grab_receiver'')) = Equivalent
      then Inr ()
      else Inl (Exn failureException
             (describe (compare (sort_log (captured w ''mixer_grab_sender''))
                (sort_log (captured w ''mixer_grab_receiver''))))),
      [Disconnect_mixer Sender, Disconnect_mixer Receiver, Sleep_ms 500, Own_server_kill,
       ServerProcess_new, Server_start,
       Connect_and_join_mixer Sender ''mixer_grab_sender'' True (experimental_sync w),
       Sleep_ms 1000, Disconnect_mixer Sender, Grabber_new Sender,
       Grab (server_host w) (server_port w) ''mixer_grab_sender'', Grabber_sort Sender,
       Connect_and_join_mixer Receiver ''mixer_grab_receiver'' True (experimental_sync w),
       Sleep_ms 1000, Disconnect_mixer Receiver, Grabber_new Receiver,
       Grab (server_host w) (server_port w) ''mixer_grab_receiver'', Grabber_sort Receiver,
       Server_kill])"
  using assms
  by (simp add: assert_matches_def thn_def bnd_def try_finally_def on_blender_def tcall_def
      capture_both_calm assert_stream_equals_def ret_def raise_def)

text \<open>
  Claim C4, amended. With two Blender instances and no call raising, \<^verbatim>\<open>assert_matches\<close>
  performs two capturing sessions against the rooms named \<^verbatim>\<open>mixer_grab_sender\<close> and
  \<^verbatim>\<open>mixer_grab_receiver\<close>: after the disconnects and the restart of the server, the
  sender joins its room with \<^verbatim>\<open>keep_room_open=True\<close>, waits a second and disconnects,
  then a grabber grabs that room and sorts; likewise for the receiver; the server is
  killed, and the outcome is that of the oracle on the two sorted logs.
\<close>

theorem two_capturing_sessions_in_dedicated_rooms:
  assumes "2 \<le> blenders w" and "\<forall>t ev. t_raises w t ev = None"
  shows "snd (assert_matches w) =
     [Disconnect_mixer Sender, Disconnect_mixer Receiver, Sleep_ms 500, Own_server_kill,
      ServerProcess_new, Server_start,
      Connect_and_join_mixer Sender ''mixer_grab_sender'' True (experimental_sync w),
      Sleep_ms 1000, Disconnect_mixer Sender, Grabber_new Sender,
      Grab (server_host w) (server_port w) ''mixer_grab_sender'', Grabber_sort Sender,
      Connect_and_join_mixer Receiver ''mixer_grab_receiver'' True (experimental_sync w),
      Sleep_ms 1000, Disconnect_mixer Receiver, Grabber_new Receiver,
      Grab (server_host w) (server_port w) ''mixer_grab_receiver'', Grabber_sort Receiver,
      Server_kill]
   \<and> fst (assert_matches w) =
       (if compare (sort_log (captured w ''mixer_grab_sender''))
             (sort_log (captured w ''mixer_grab_receiver'')) = Equivalent
        then Inr ()
        else Inl (Exn failureException
               (describe (compare (sort_log (captured w ''mixer_grab_sender''))
                  (sort_log (captured w ''mixer_grab_receiver''))))))"
  by (simp add: assert_matches_calm [OF assms])

text \<open>The calm test: the rooms grabbed, and the kill of the server at the end.\<close>

theorem two_capturing_sessions_witness:
  "grabbed_rooms (snd (assert_matches calm_test)) = [''mixer_grab_sender'', ''mixer_grab_receiver'']
 \<and> last (snd (assert_matches calm_test)) = Server_kill"
  using two_capturing_sessions_in_dedicated_rooms [of calm_test]
  by (simp add: calm_test_def)

text \<open>The rooms of the two sessions are not \<^verbatim>\<open>grab_sender\<close> and \<^verbatim>\<open>grab_receiver\<close>.\<close>

theorem rooms_are_not_grab_sender_grab_receiver:
  "grabbed_rooms (snd (assert_matches calm_test)) = [''mixer_grab_sender'', ''mixer_grab_receiver'']
 \<and> grabbed_rooms (snd (assert_matches calm_test)) \<noteq> [''grab_sender'', ''grab_receiver'']"
  by (simp add: assert_matches_def capture_both_def thn_def bnd_def try_finally_def
      try_except_def grab_def on_blender_def tcall_def assert_stream_equals_def ret_def raise_def
      calm_test_def split: if_splits)

lemma sender_grab_fails:
  assumes b: "2 \<le> blenders w"
    and r: "\<forall>t ev. t_raises w t ev
              = (if ev = Grab (server_host w) (server_port w) ''mixer_grab_sender''
                 then Some e else None)"
    and e: "is_RuntimeError e"
  shows "assert_matches w =
     (Inl (Exn failureException (exn_args e)),
      [Disconnect_mixer Sender, Disconnect_mixer Receiver, Sleep_ms 500, Own_server_kill,
       ServerProcess_new, Server_start,
       Connect_and_join_mixer Sender ''mixer_grab_sender'' True (experimental_sync w),
       Sleep_ms 1000, Disconnect_mixer Sender, Grabber_new Sender,
       Grab (server_host w) (server_port w) ''mixer_grab_sender'', Server_kill])"
  using b e
  by (simp add: assert_matches_def capture_both_def thn_def bnd_def try_finally_def
      try_except_def grab_def on_blender_def tcall_def ret_def raise_def as_failure_def r)

lemma receiver_grab_fails:
  assumes b: "2 \<le> blenders w"
    and r: "\<forall>t ev. t_raises w t ev
              = (if ev = Grab (server_host w) (server_port w) ''mixer_grab_receiver''
                 then Some e else None)"
    and e: "is_RuntimeError e"
  shows "assert_matches w =
     (Inl (Exn failureException (exn_args e)),
      [Disconnect_mixer Sender, Disconnect_mixer Receiver, Sleep_ms 500, Own_server_kill,
       ServerProcess_new, Server_start,
       Connect_and_join_mixer Sender ''mixer_grab_sender'' True (experimental_sync w),
       Sleep_ms 1000, Disconnect_mixer Sender, Grabber_new Sender,
       Grab (server_host w) (server_port w) ''mixer_grab_sender'', Grabber_sort Sender,
       Connect_and_join_mixer Receiver ''mixer_grab_receiver'' True (experimental_sync w),
       Sleep_ms 1000, Disconnect_mixer Receiver, Grabber_new Receiver,
       Grab (server_host w) (server_port w) ''mixer_grab_receiver'', Server_kill])"
  using b e
  by (simp add: assert_matches_def capture_both_def thn_def bnd_def try_finally_def
      try_except_def grab_def on_blender_def tcall_def ret_def raise_def as_failure_def r)

text \<open>
  Claim C7. When the grab of the sender's room, or of the receiver's room, raises a
  \<^verbatim>\<open>RuntimeError\<close>, of that class or of any class derived from it (nothing else
  raising), \<^verbatim>\<open>assert_matches\<close> raises the test's \<^verbatim>\<open>failureException\<close> with the same
  arguments, after killing the server in the final block.
\<close>

theorem grab_failure_is_test_failure:
  assumes "2 \<le> blenders w"
    and "room = ''mixer_grab_sender'' \<or> room = ''mixer_grab_receiver''"
    and "\<forall>t ev. t_raises w t ev
           = (if ev = Grab (server_host w) (server_port w) room then Some e else None)"
    and "is_RuntimeError e"
  shows "fst (assert_matches w) = Inl (Exn failureException (exn_args e))
       \<and> last (snd (assert_matches w)) = Server_kill"
  using assms(2)
proof
  assume "room = ''mixer_grab_sender''"
  with sender_grab_fails [OF assms(1) _ assms(4)] assms(3) show ?thesis by simp
next
  assume "room = ''mixer_grab_receiver''"
  with receiver_grab_fails [OF assms(1) _ assms(4)] assms(3) show ?thesis by simp
qed

text \<open>A grab of the sender's room that raises \<^verbatim>\<open>RuntimeError\<close>, and a grab of the
  receiver's room that raises a class derived from it.\<close>

theorem grab_failure_witness:
  "fst (assert_matches (failing_grab ''mixer_grab_sender'' (Exn RuntimeError [''no room''])))
     = Inl (Exn failureException [''no room''])
 \<and> fst (assert_matches (failing_grab ''mixer_grab_receiver''
            (Exn (RuntimeError_subclass ''NotImplementedError'') [''grab''])))
     = Inl (Exn failureException [''grab''])"
  using grab_failure_is_test_failure
      [of "failing_grab ''mixer_grab_sender'' (Exn RuntimeError [''no room''])"
          "''mixer_grab_sender''" "Exn RuntimeError [''no room'']"]
    grab_failure_is_test_failure
      [of "failing_grab ''mixer_grab_receiver''
             (Exn (RuntimeError_subclass ''NotImplementedError'') [''grab''])"
          "''mixer_grab_receiver''" "Exn (RuntimeError_subclass ''NotImplementedError'') [''grab'']"]
  by (simp add: failing_grab_def calm_test_def is_RuntimeError_def)

text \<open>An exception that does not derive from \<^verbatim>\<open>RuntimeError\<close> is not converted.\<close>

lemma other_grab_failure_propagates:
  "fst (assert_matches (failing_grab ''mixer_grab_sender'' (Exn (OtherException ''OSError'') [''x''])))
     = Inl (Exn (OtherException ''OSError'') [''x''])"
  by (simp add: assert_matches_def capture_both_def thn_def bnd_def try_finally_def
      try_except_def grab_def on_blender_def tcall_def ret_def raise_def as_failure_def
      is_RuntimeError_def failing_grab_def calm_test_def)

lemma type_rank_inj: "type_rank a = type_rank b \<Longrightarrow> a = b"
  by (cases a; cases b) simp_all

lemma content_key_inj: "content_key a = content_key b \<Longrightarrow> a = b"
proof -
  assume k: "content_key a = content_key b"
  then have "type a = type b" by (simp add: content_key_def type_rank_inj)
  moreover from k have "map (of_char :: char \<Rightarrow> nat) (data a) = map of_char (data b)"
    by (simp add: content_key_def)
  then have "data a = data b"
    by (simp add: inj_map_eq_map inj_on_def)
  ultimately show "a = b" by simp
qed

lemma filter_same_key:
  "filter (\<lambda>x. content_key k = content_key x) zs = replicate (count (mset zs) k) k"
proof (induction zs)
  case Nil
  show ?case by simp
next
  case (Cons z zs)
  then show ?case using content_key_inj [of k z] by auto
qed

lemma sort_key_order_insensitive:
  assumes "mset xs = mset ys"
  shows "sort_key content_key xs = sort_key content_key ys"
proof (rule properties_for_sort_key)
  show "mset (sort_key content_key ys) = mset xs" using assms by simp
  show "sorted (map content_key (sort_key content_key ys))" by simp
  fix k assume "k \<in> set (sort_key content_key ys)"
  show "filter (\<lambda>x. content_key k = content_key x) (sort_key content_key ys)
          = filter (\<lambda>x. content_key k = content_key x) xs"
    using assms by (simp add: filter_same_key)
qed

lemma sort_key_eq_iff:
  "(sort_key content_key xs = sort_key content_key ys) = (mset xs = mset ys)"
proof
  assume "sort_key content_key xs = sort_key content_key ys"
  then have "mset (sort_key content_key xs) = mset (sort_key content_key ys)" by simp
  then show "mset xs = mset ys" by simp
next
  assume "mset xs = mset ys"
  then show "sort_key content_key xs = sort_key content_key ys"
    by (rule sort_key_order_insensitive)
qed

lemma map_of_sort_log:
  "map_of (sort_log l) k = map_option (sort_key content_key) (map_of l k)"
  by (induction l) (auto simp: sort_log_def)

lemma sorted_substream_eq_iff:
  "(map_of (sort_log a) k = map_of (sort_log b) k)
     = (map_option mset (map_of a k) = map_option mset (map_of b k))"
  by (cases "map_of a k"; cases "map_of b k") (simp_all add: map_of_sort_log sort_key_eq_iff)

lemma first_mismatch_None: "(first_mismatch i xs ys = None) = (xs = ys)"
  by (induction i xs ys rule: first_mismatch.induct) simp_all

lemma compare_substreams_Equivalent:
  "(compare_substreams ks a b = Equivalent)
     = (\<forall>k \<in> set ks. map_of a k \<noteq> None \<and> map_of a k = map_of b k)"
proof (induction ks)
  case Nil
  show ?case by simp
next
  case (Cons k ks)
  show ?case
  proof (cases "map_of a k")
    case None
    then show ?thesis by (simp split: option.split)
  next
    case sa: (Some xs)
    show ?thesis
    proof (cases "map_of b k")
      case None
      with sa show ?thesis by simp
    next
      case sb: (Some ys)
      show ?thesis
      proof (cases "first_mismatch 0 xs ys")
        case None
        then have "xs = ys" by (simp add: first_mismatch_None)
        with None sa sb Cons.IH show ?thesis by simp
      next
        case (Some m)
        then have "xs \<noteq> ys" using first_mismatch_None [of 0 xs ys] by auto
        with Some sa sb show ?thesis by (cases m) simp
      qed
    qed
  qed
qed

lemma compare_Equivalent: "(compare a b = Equivalent) = (\<forall>k. map_of a k = map_of b k)"
proof
  assume e: "compare a b = Equivalent"
  show "\<forall>k. map_of a k = map_of b k"
  proof
    fix k
    show "map_of a k = map_of b k"
    proof (cases "k \<in> fst ` set a \<union> fst ` set b")
      case True
      then have "k \<in> set (remdups (map fst a @ map fst b))" by auto
      moreover from e
      have "\<forall>k \<in> set (remdups (map fst a @ map fst b)).
              map_of a k \<noteq> None \<and> map_of a k = map_of b k"
        by (simp only: compare_def compare_substreams_Equivalent)
      ultimately show ?thesis by blast
    next
      case False
      then have "map_of a k = None" "map_of b k = None"
        by (simp_all add: map_of_eq_None_iff)
      then show ?thesis by simp
    qed
  qed
next
  assume m: "\<forall>k. map_of a k = map_of b k"
  have "\<forall>k \<in> set (remdups (map fst a @ map fst b)). map_of a k \<noteq> None \<and> map_of a k = map_of b k"
  proof
    fix k assume "k \<in> set (remdups (map fst a @ map fst b))"
    then have "k \<in> fst ` set a \<or> k \<in> fst ` set b" by auto
    then have "map_of a k \<noteq> None \<or> map_of b k \<noteq> None"
      by (simp add: map_of_eq_None_iff)
    with m show "map_of a k \<noteq> None \<and> map_of a k = map_of b k" by simp
  qed
  then show "compare a b = Equivalent"
    by (simp only: compare_def compare_substreams_Equivalent)
qed

lemma compare_sorted_Equivalent:
  "(compare (sort_log a) (sort_log b) = Equivalent)
     = (\<forall>k. map_option mset (map_of a k) = map_option mset (map_of b k))"
  by (simp add: compare_Equivalent sorted_substream_eq_iff)

lemma sort_log_sorted:
  "(k, cs) \<in> set (sort_log l) \<Longrightarrow> sorted (map content_key cs)"
  by (auto simp: sort_log_def)

text \<open>
  Claim C5. With two Blender instances and no call raising, \<^verbatim>\<open>assert_matches\<close> calls
  \<^verbatim>\<open>sort\<close> on the sender's and on the receiver's grabber, and its outcome is that of the
  comparison of the two sorted logs, in which every substream is in the order of the
  key of its content. So the comparison does not see the order of arrival within a
  substream: the test passes exactly when the two captured logs have the same
  substreams and, on each, the same commands as multisets; it fails on anything else.
\<close>

theorem sorting_makes_comparison_order_insensitive:
  assumes "2 \<le> blenders w" and "\<forall>t ev. t_raises w t ev = None"
  shows "(fst (assert_matches w) = Inr ())
           = (\<forall>k. map_option mset (map_of (captured w ''mixer_grab_sender'') k)
                 = map_option mset (map_of (captured w ''mixer_grab_receiver'') k))
       \<and> fst (assert_matches w) =
           (if compare (sort_log (captured w ''mixer_grab_sender''))
                 (sort_log (captured w ''mixer_grab_receiver'')) = Equivalent
            then Inr ()
            else Inl (Exn failureException
                   (describe (compare (sort_log (captured w ''mixer_grab_sender''))
                      (sort_log (captured w ''mixer_grab_receiver''))))))
       \<and> Grabber_sort Sender \<in> set (snd (assert_matches w))
       \<and> Grabber_sort Receiver \<in> set (snd (assert_matches w))
       \<and> (\<forall>room k. map_of (sort_log (captured w room)) k
             = map_option (sort_key content_key) (map_of (captured w room) k))
       \<and> (\<forall>room. \<forall>p \<in> set (sort_log (captured w room)). sorted (map content_key (snd p)))"
proof -
  have "(fst (assert_matches w) = Inr ())
           = (compare (sort_log (captured w ''mixer_grab_sender''))
                (sort_log (captured w ''mixer_grab_receiver'')) = Equivalent)"
    by (simp add: assert_matches_calm [OF assms])
  then have "(fst (assert_matches w) = Inr ())
           = (\<forall>k. map_option mset (map_of (captured w ''mixer_grab_sender'') k)
                 = map_option mset (map_of (captured w ''mixer_grab_receiver'') k))"
    by (simp only: compare_sorted_Equivalent)
  moreover have "fst (assert_matches w) =
           (if compare (sort_log (captured w ''mixer_grab_sender''))
                 (sort_log (captured w ''mixer_grab_receiver'')) = Equivalent
            then Inr ()
            else Inl (Exn failureException
                   (describe (compare (sort_log (captured w ''mixer_grab_sender''))
                      (sort_log (captured w ''mixer_grab_receiver''))))))"
    by (simp add: assert_matches_calm [OF assms])
  moreover have "Grabber_sort Sender \<in> set (snd (assert_matches w))"
    "Grabber_sort Receiver \<in> set (snd (assert_matches w))"
    by (simp_all add: assert_matches_calm [OF assms])
  moreover have "\<forall>room k. map_of (sort_log (captured w room)) k
             = map_option (sort_key content_key) (map_of (captured w room) k)"
    by (simp add: map_of_sort_log)
  moreover have "\<forall>room. \<forall>p \<in> set (sort_log (captured w room)). sorted (map content_key (snd p))"
    using sort_log_sorted by (metis prod.collapse)
  ultimately show ?thesis by blast
qed

text \<open>
  The receiver got the two commands of the substream in the other order: the test
  passes. With a command missing on the receiver's side it fails.
\<close>

theorem sorting_witness:
  "fst (assert_matches calm_test) = Inr ()
 \<and> fst (assert_matches (calm_test\<lparr>captured :=
        (\<lambda>room. if room = ''mixer_grab_sender'' then [(1, [cmd_a, cmd_b])] else [(1, [cmd_b])])\<rparr>))
     \<noteq> Inr ()"
proof -
  have c: "2 \<le> blenders calm_test" "\<forall>t ev. t_raises calm_test t ev = None"
    by (simp_all add: calm_test_def)
  have s: "\<forall>k. map_option mset (map_of (captured calm_test ''mixer_grab_sender'') k)
                 = map_option mset (map_of (captured calm_test ''mixer_grab_receiver'') k)"
    by (simp add: calm_test_def)
  let ?t = "calm_test\<lparr>captured :=
        (\<lambda>room. if room = ''mixer_grab_sender'' then [(1, [cmd_a, cmd_b])] else [(1, [cmd_b])])\<rparr>"
  have d: "2 \<le> blenders ?t" "\<forall>t ev. t_raises ?t t ev = None"
    by (simp_all add: calm_test_def)
  have n: "\<not> (\<forall>k. map_option mset (map_of (captured ?t ''mixer_grab_sender'') k)
                 = map_option mset (map_of (captured ?t ''mixer_grab_receiver'') k))"
  proof
    assume "\<forall>k. map_option mset (map_of (captured ?t ''mixer_grab_sender'') k)
                 = map_option mset (map_of (captured ?t ''mixer_grab_receiver'') k)"
    then have "map_option mset (map_of (captured ?t ''mixer_grab_sender'') 1)
                 = map_option mset (map_of (captured ?t ''mixer_grab_receiver'') 1)" by blast
    then show False by (simp add: cmd_a_def cmd_b_def)
  qed
  from sorting_makes_comparison_order_insensitive [OF c] s
       sorting_makes_comparison_order_insensitive [OF d] n
  show ?thesis by blast
qed

end
